theory Spec2Isabelle
  imports Main "HOL-Library.Word"
begin

section \<open>The service-control HTTP call (src/envoy/http/service\_control/http\_call.cc)\<close>

text \<open>
  \<^verbatim>\<open>HttpCallImpl\<close> performs one logical POST to the service-control server, possibly in
  several physical attempts.  It talks to four collaborators: the token function, the
  tracer (child spans of a parent span), the asynchronous HTTP client of the cluster
  manager, and the dispatcher that deletes the object later.  None of them is in this
  file of the repository, so each call into a collaborator is recorded, in program order,
  in a trace of effects; the properties below are read off that trace.
\<close>

subsection \<open>Collaborator data\<close>

type_synonym handle = nat
type_synonym span_id = nat

text \<open>The canonical status codes of \<^verbatim>\<open>google::protobuf::util::error::Code\<close>.\<close>

datatype Code =
    OK | CANCELLED | UNKNOWN | INVALID_ARGUMENT | DEADLINE_EXCEEDED | NOT_FOUND
  | ALREADY_EXISTS | PERMISSION_DENIED | UNAUTHENTICATED | RESOURCE_EXHAUSTED
  | FAILED_PRECONDITION | ABORTED | OUT_OF_RANGE | UNIMPLEMENTED | INTERNAL
  | UNAVAILABLE | DATA_LOSS

text \<open>\<^verbatim>\<open>google::protobuf::util::Status\<close>: a code and a message.\<close>

datatype Status = Status (error_code: Code) (error_message: string)

definition Status_OK :: Status where
  "Status_OK = Status OK []"

text \<open>
  \<^verbatim>\<open>Http::AsyncClient::FailureReason\<close>.  The switch in \<^verbatim>\<open>onFailure\<close> has one case for
  \<^verbatim>\<open>Reset\<close> and a default branch for every other value.
\<close>

datatype FailureReason = Reset | OtherReason

text \<open>The keys and the two predefined values of \<^verbatim>\<open>Tracing::Tags\<close> that the class uses.\<close>

datatype tag_key = Component | UpstreamCluster | HttpUrl | HttpMethod | HttpStatusCode | Error

datatype tag_value = Proxy | Canceled | Text string

text \<open>The request message, as \<^verbatim>\<open>prepareHeaders\<close> fills it.\<close>

record message =
  m_path :: string
  m_host :: string
  m_method :: string
  m_body :: string
  m_content_length :: nat
  m_authorization :: string
  m_content_type :: string

text \<open>
  What \<^verbatim>\<open>onSuccess\<close> reads of a response: the status of its headers
  (\<^verbatim>\<open>Http::Utility::getResponseStatus\<close>, a \<^verbatim>\<open>uint64_t\<close>) and its body, which may be absent.
\<close>

record response =
  status_code :: "64 word"
  resp_body :: "string option"

text \<open>
  One entry per interaction with a collaborator.  \<open>Delivered\<close> is the transport handing
  the outcome of the outstanding request to the object (the entry of \<^verbatim>\<open>onSuccess\<close> or
  \<^verbatim>\<open>onFailure\<close>); all other entries are calls the object makes.
\<close>

datatype effect =
    TokenFetch
  | SpawnChild span_id string
  | SetTag span_id tag_key tag_value
  | FinishSpan span_id
  | Send handle string message "32 word"
  | CancelRequest handle
  | Delivered
  | OnDone Status string
  | DeferredDelete

subsection \<open>The object\<close>

text \<open>
  The constructor's arguments that never change afterwards.  \<open>uri\<close> is \<^verbatim>\<open>uri_\<close> (the
  configured uri followed by the suffix), \<open>host\<close> and \<open>path\<close> are what
  \<^verbatim>\<open>extractHostPathFromUri\<close> made of it, \<open>str_body\<close> is the serialized body.
  \<open>token_fn k\<close> is what the token function returns at its \<open>k\<close>-th invocation, counted
  from 0: the function may return a different token each time.
\<close>

record config =
  uri :: string
  cluster :: string
  host :: string
  path :: string
  str_body :: string
  timeout_ms :: "32 word"
  trace_operation_name :: string
  token_fn :: "nat \<Rightarrow> string"

text \<open>The fields that change, and the trace of effects so far (oldest first).\<close>

record HttpCallImpl =
  request :: "handle option"
  retries :: "32 word"
  request_count :: "32 word"
  request_span :: "span_id option"
  trace :: "effect list"

definition KApplicationProto :: string where
  "KApplicationProto = ''application/x-protobuf''"

text \<open>The constructor: \<^verbatim>\<open>request_\<close> and \<^verbatim>\<open>request_span_\<close> start null, the count at 0.\<close>

definition create :: "32 word \<Rightarrow> HttpCallImpl" where
  "create r = \<lparr>request = None, retries = r, request_count = 0, request_span = None,
     trace = []\<rparr>"

definition emit :: "effect \<Rightarrow> HttpCallImpl \<Rightarrow> HttpCallImpl" where
  "emit e s = s\<lparr>trace := trace s @ [e]\<rparr>"

fun is_Send :: "effect \<Rightarrow> bool" where
  "is_Send (Send h c m t) = True"
| "is_Send e = False"

fun is_SpawnChild :: "effect \<Rightarrow> bool" where
  "is_SpawnChild (SpawnChild i n) = True"
| "is_SpawnChild e = False"

fun is_OnDone :: "effect \<Rightarrow> bool" where
  "is_OnDone (OnDone st b) = True"
| "is_OnDone e = False"

text \<open>How many sends, spans and token fetches a trace holds.\<close>

definition sends :: "effect list \<Rightarrow> nat" where
  "sends t = length (filter is_Send t)"

definition spawns :: "effect list \<Rightarrow> nat" where
  "spawns t = length (filter is_SpawnChild t)"

definition fetches :: "effect list \<Rightarrow> nat" where
  "fetches t = length (filter (\<lambda>e. e = TokenFetch) t)"

definition dones :: "effect list \<Rightarrow> nat" where
  "dones t = length (filter is_OnDone t)"

text \<open>Decimal digits, as \<^verbatim>\<open>std::to_string\<close> and \<^verbatim>\<open>absl::StrCat\<close> print an unsigned integer.\<close>

definition digit_char :: "nat \<Rightarrow> char" where
  "digit_char d = ''0123456789'' ! d"

fun to_string :: "nat \<Rightarrow> string" where
  "to_string n = (if n < 10 then [digit_char n]
     else to_string (n div 10) @ [digit_char (n mod 10)])"

declare to_string.simps [simp del]

definition reset :: "HttpCallImpl \<Rightarrow> HttpCallImpl" where
  "reset s = s\<lparr>request := None\<rparr>"

definition deferredDelete :: "HttpCallImpl \<Rightarrow> HttpCallImpl" where
  "deferredDelete s = emit DeferredDelete s"

definition prepareHeaders :: "config \<Rightarrow> string \<Rightarrow> message" where
  "prepareHeaders cfg token =
     \<lparr>m_path = path cfg, m_host = host cfg, m_method = ''POST'', m_body = str_body cfg,
      m_content_length = length (str_body cfg),
      m_authorization = ''Bearer '' @ token,
      m_content_type = KApplicationProto\<rparr>"

text \<open>
  \<^verbatim>\<open>makeOneCall\<close>: count the attempt, fetch the token, report and return when it is empty;
  otherwise spawn and tag the span of the attempt and send the request.  A new span and
  a new request get the next unused number.
\<close>

definition makeOneCall :: "config \<Rightarrow> HttpCallImpl \<Rightarrow> HttpCallImpl" where
  "makeOneCall cfg s =
     (let s1 = s\<lparr>request_count := request_count s + 1\<rparr>;
          token = token_fn cfg (fetches (trace s1));
          s2 = emit TokenFetch s1
      in if token = [] then
           emit (OnDone (Status INTERNAL ''Missing access token for service control call'') []) s2
         else
           let span_name =
                 (if request_count s2 = 1 then trace_operation_name cfg
                  else trace_operation_name cfg @ '' - Retry '' @
                       to_string (unat (request_count s2 - 1)));
               sid = spawns (trace s2);
               s3 = emit (SpawnChild sid span_name) (s2\<lparr>request_span := Some sid\<rparr>);
               s4 = emit (SetTag sid Component Proxy) s3;
               s5 = emit (SetTag sid UpstreamCluster (Text (cluster cfg))) s4;
               s6 = emit (SetTag sid HttpUrl (Text (uri cfg))) s5;
               s7 = emit (SetTag sid HttpMethod (Text ''POST'')) s6;
               msg = prepareHeaders cfg token;
               h = sends (trace s7)
           in (emit (Send h (cluster cfg) msg (timeout_ms cfg)) s7)\<lparr>request := Some h\<rparr>)"

definition call :: "config \<Rightarrow> HttpCallImpl \<Rightarrow> HttpCallImpl" where
  "call cfg s = makeOneCall cfg s"

text \<open>
  \<^verbatim>\<open>attemptRetry\<close>: the returned flag says whether a new attempt was started.
\<close>

definition attemptRetry :: "config \<Rightarrow> 64 word \<Rightarrow> HttpCallImpl \<Rightarrow> bool \<times> HttpCallImpl" where
  "attemptRetry cfg status s =
     (if 400 \<le> status \<and> status < 500 then (False, s)
      else if retries s \<le> 0 then (False, s)
      else (True, makeOneCall cfg (reset (s\<lparr>retries := retries s - 1\<rparr>))))"

text \<open>
  The two callbacks of the HTTP client dereference \<^verbatim>\<open>request_span_\<close> without a test; with
  a null span the behaviour is undefined, which is the result \<open>None\<close>.
\<close>

definition onSuccess :: "config \<Rightarrow> response \<Rightarrow> HttpCallImpl \<Rightarrow> HttpCallImpl option" where
  "onSuccess cfg resp s =
     (case request_span s of
        None \<Rightarrow> None
      | Some sid \<Rightarrow>
          let s1 = emit (SetTag sid HttpStatusCode (Text (to_string (unat (status_code resp))))) s;
              s2 = emit (FinishSpan sid) s1;
              body = (case resp_body resp of None \<Rightarrow> [] | Some b \<Rightarrow> b)
          in if status_code resp = 200 then
               Some (deferredDelete (reset (emit (OnDone Status_OK body) s2)))
             else
               (case attemptRetry cfg (status_code resp) s2 of
                  (True, s3) \<Rightarrow> Some s3
                | (False, s3) \<Rightarrow>
                    Some (deferredDelete (reset
                      (emit (OnDone (Status INTERNAL ''Failed to call service control'') body) s3)))))"

definition onFailure :: "config \<Rightarrow> FailureReason \<Rightarrow> HttpCallImpl \<Rightarrow> HttpCallImpl option" where
  "onFailure cfg reason s =
     (case request_span s of
        None \<Rightarrow> None
      | Some sid \<Rightarrow>
          let s1 = (case reason of
                      Reset \<Rightarrow> emit (SetTag sid Error (Text ''the stream has been reset'')) s
                    | _ \<Rightarrow> emit (SetTag sid Error (Text ''unknown network error'')) s);
              s2 = emit (FinishSpan sid) s1
          in (case attemptRetry cfg 0 s2 of
                (True, s3) \<Rightarrow> Some s3
              | (False, s3) \<Rightarrow>
                  Some (deferredDelete (reset
                    (emit (OnDone (Status INTERNAL ''Failed to call service control'') []) s3)))))"

definition cancel :: "HttpCallImpl \<Rightarrow> HttpCallImpl" where
  "cancel s =
     (let s1 = (case request_span s of
                  None \<Rightarrow> s
                | Some sid \<Rightarrow> emit (FinishSpan sid) (emit (SetTag sid Error Canceled) s));
          s2 = (case request s1 of
                  None \<Rightarrow> s1
                | Some h \<Rightarrow> reset (emit (CancelRequest h) s1))
      in deferredDelete s2)"

subsection \<open>The environment: caller and transport\<close>

text \<open>
  What can happen to the object from outside: the caller invokes \<^verbatim>\<open>call()\<close> or
  \<^verbatim>\<open>cancel()\<close>, the HTTP client invokes \<^verbatim>\<open>onSuccess\<close> with a response or \<^verbatim>\<open>onFailure\<close>
  with a reason.
\<close>

datatype event = Call | Success response | Failure FailureReason | Cancel

fun is_settled :: "effect \<Rightarrow> bool" where
  "is_settled Delivered = True"
| "is_settled (CancelRequest h) = True"
| "is_settled e = False"

text \<open>
  The requests the transport still owes an answer: those sent, less those answered and
  those cancelled.
\<close>

definition outstanding :: "effect list \<Rightarrow> int" where
  "outstanding t = int (sends t) - int (length (filter is_settled t))"

text \<open>
  When an event may happen.  \<^verbatim>\<open>call()\<close> is invoked once, on the fresh object.  The
  transport calls back only for a request it still owes an answer, and only after
  \<^verbatim>\<open>send\<close> has returned the handle of that request: a callback is an event of its own,
  never nested in the step that sends.  \<^verbatim>\<open>cancel()\<close> is for a caller that has not been
  told the outcome and has not cancelled before.  The completion callback \<^verbatim>\<open>on_done_\<close>
  belongs to the caller; its invocation is recorded and it does not call back into the
  object.
\<close>

fun enabled :: "HttpCallImpl \<Rightarrow> event \<Rightarrow> bool" where
  "enabled s Call = (trace s = [])"
| "enabled s (Success r) = (0 < outstanding (trace s))"
| "enabled s (Failure r) = (0 < outstanding (trace s))"
| "enabled s Cancel = (dones (trace s) = 0 \<and> DeferredDelete \<notin> set (trace s))"

fun step :: "config \<Rightarrow> event \<Rightarrow> HttpCallImpl \<Rightarrow> HttpCallImpl option" where
  "step cfg Call s = Some (call cfg s)"
| "step cfg (Success r) s = onSuccess cfg r (emit Delivered s)"
| "step cfg (Failure r) s = onFailure cfg r (emit Delivered s)"
| "step cfg Cancel s = Some (cancel s)"

text \<open>
  A run of events; \<open>None\<close> when an event comes that may not happen, or when a callback
  meets a null span.
\<close>

fun run :: "config \<Rightarrow> event list \<Rightarrow> HttpCallImpl \<Rightarrow> HttpCallImpl option" where
  "run cfg [] s = Some s"
| "run cfg (e # es) s =
     (if enabled s e then
        (case step cfg e s of None \<Rightarrow> None | Some s' \<Rightarrow> run cfg es s')
      else None)"

subsection \<open>Notions used in the properties\<close>

text \<open>
  \<open>span_name cfg n\<close> is the name the specification gives the span of attempt \<open>n\<close>,
  counted from 1 in the natural numbers.  \<open>code_span_name cfg c\<close> is the name
  \<^verbatim>\<open>makeOneCall\<close> computes from the 32-bit counter \<open>c\<close>.  \<open>span_setup\<close> lists the spawn
  of a span and the four tags \<^verbatim>\<open>makeOneCall\<close> sets on it.  \<open>body_of\<close>, \<open>failed_status\<close>
  and \<open>reason_text\<close> name the body \<^verbatim>\<open>onSuccess\<close> extracts, the status of a failed call
  and the error text \<^verbatim>\<open>onFailure\<close> chooses.
\<close>

definition span_name :: "config \<Rightarrow> nat \<Rightarrow> string" where
  "span_name cfg n = (if n = 1 then trace_operation_name cfg
     else trace_operation_name cfg @ '' - Retry '' @ to_string (n - 1))"

definition span_setup :: "config \<Rightarrow> span_id \<Rightarrow> string \<Rightarrow> effect list" where
  "span_setup cfg sid name =
     [SpawnChild sid name, SetTag sid Component Proxy,
      SetTag sid UpstreamCluster (Text (cluster cfg)),
      SetTag sid HttpUrl (Text (uri cfg)),
      SetTag sid HttpMethod (Text ''POST'')]"

definition code_span_name :: "config \<Rightarrow> 32 word \<Rightarrow> string" where
  "code_span_name cfg c = (if c = 1 then trace_operation_name cfg
     else trace_operation_name cfg @ '' - Retry '' @ to_string (unat (c - 1)))"

definition body_of :: "response \<Rightarrow> string" where
  "body_of r = (case resp_body r of None \<Rightarrow> [] | Some b \<Rightarrow> b)"

definition failed_status :: Status where
  "failed_status = Status INTERNAL ''Failed to call service control''"

definition reason_text :: "FailureReason \<Rightarrow> string" where
  "reason_text reason = (case reason of Reset \<Rightarrow> ''the stream has been reset''
     | _ \<Rightarrow> ''unknown network error'')"

text \<open>
  The invariant of the reachable states.  \<open>r\<close> is the configured number of retries and
  \<open>es\<close> the events so far.  \<open>ready\<close> holds where \<^verbatim>\<open>makeOneCall\<close> is entered.
\<close>

definition call_inv :: "32 word \<Rightarrow> event list \<Rightarrow> HttpCallImpl \<Rightarrow> bool" where
  "call_inv r es s \<longleftrightarrow>
     fetches (trace s) + unat (retries s) \<le> unat r + 1 \<and>
     request_count s = of_nat (fetches (trace s)) \<and>
     spawns (trace s) = sends (trace s) \<and>
     sends (trace s) \<le> fetches (trace s) \<and>
     (es = [] \<longrightarrow> s = create r) \<and>
     (es \<noteq> [] \<longrightarrow> trace s \<noteq> []) \<and>
     (case request s of
        Some h \<Rightarrow>
          outstanding (trace s) = 1 \<and> request_span s = Some h \<and> Suc h = sends (trace s) \<and>
          sends (trace s) = fetches (trace s) \<and> dones (trace s) = 0 \<and>
          DeferredDelete \<notin> set (trace s) \<and> Cancel \<notin> set es
      | None \<Rightarrow>
          outstanding (trace s) = 0 \<and>
          (es \<noteq> [] \<longrightarrow>
             (if Cancel \<in> set es then dones (trace s) = 0 \<and> DeferredDelete \<in> set (trace s)
              else dones (trace s) = 1)))"

definition ready :: "32 word \<Rightarrow> HttpCallImpl \<Rightarrow> bool" where
  "ready r s \<longleftrightarrow>
     request s = None \<and> outstanding (trace s) = 0 \<and>
     fetches (trace s) + unat (retries s) \<le> unat r \<and>
     request_count s = of_nat (fetches (trace s)) \<and>
     spawns (trace s) = sends (trace s) \<and> sends (trace s) = fetches (trace s) \<and>
     dones (trace s) = 0 \<and> DeferredDelete \<notin> set (trace s)"

text \<open>Configurations for concrete runs: one whose token function always returns a
  token, one whose token function returns the empty string.\<close>

definition example_config :: config where
  "example_config = \<lparr>uri = ''http://sc/v1/services/s:check'', cluster = ''sc'',
     host = ''sc'', path = ''/v1/services/s:check'', str_body = ''body'',
     timeout_ms = 5000, trace_operation_name = ''op'', token_fn = (\<lambda>k. ''t'')\<rparr>"

definition example_no_token :: config where
  "example_no_token = example_config\<lparr>token_fn := (\<lambda>k. [])\<rparr>"

text \<open>A third one, whose token function returns a token the first time and the empty
  string from then on.\<close>

definition example_token_once :: config where
  "example_token_once = example_config\<lparr>token_fn := (\<lambda>k. if k = 0 then ''t'' else [])\<rparr>"

text \<open>
  What a callback of the transport adds to the trace before the retry decision, given the
  span \<open>h\<close> of the attempt; whether the outcome is retried; and the report to the
  caller when it is not.
\<close>

fun callback_effects :: "event \<Rightarrow> span_id \<Rightarrow> effect list" where
  "callback_effects (Success resp) h =
     [Delivered, SetTag h HttpStatusCode (Text (to_string (unat (status_code resp)))),
      FinishSpan h]"
| "callback_effects (Failure reason) h =
     [Delivered, SetTag h Error (Text (reason_text reason)), FinishSpan h]"
| "callback_effects e h = []"

fun retried :: "HttpCallImpl \<Rightarrow> event \<Rightarrow> bool" where
  "retried s (Success resp) =
     (status_code resp \<noteq> 200 \<and> \<not> (400 \<le> status_code resp \<and> status_code resp < 500) \<and>
      retries s \<noteq> 0)"
| "retried s (Failure reason) = (retries s \<noteq> 0)"
| "retried s e = False"

fun final_done :: "event \<Rightarrow> effect" where
  "final_done (Success resp) =
     OnDone (if status_code resp = 200 then Status_OK else failed_status) (body_of resp)"
| "final_done e = OnDone failed_status []"

definition missing_token_status :: Status where
  "missing_token_status = Status INTERNAL ''Missing access token for service control call''"

text \<open>
  An outcome other than success: any failure notification, and any response whose status
  is not 200.  \<open>observed_status\<close> is the status code handed to \<^verbatim>\<open>attemptRetry\<close>: the
  status of the response, and 0 for a failure notification.
\<close>

fun non_success :: "event \<Rightarrow> bool" where
  "non_success (Success resp) = (status_code resp \<noteq> 200)"
| "non_success (Failure reason) = True"
| "non_success e = False"

fun observed_status :: "event \<Rightarrow> 64 word" where
  "observed_status (Success resp) = status_code resp"
| "observed_status e = 0"

text \<open>What an attempt adds to the trace when it is the \<open>n\<close>-th after the first.\<close>

definition attempt_effects :: "config \<Rightarrow> nat \<Rightarrow> effect list" where
  "attempt_effects cfg n = TokenFetch #
     (if token_fn cfg n = [] then [OnDone missing_token_status []]
      else span_setup cfg n (span_name cfg (Suc n)) @
           [Send n (cluster cfg) (prepareHeaders cfg (token_fn cfg n)) (timeout_ms cfg)])"

text \<open>
  The effects by which an attempt starts and sets up its span: the token fetch, the spawn
  of the span and the four tags set right after it.
\<close>

fun span_creation :: "effect \<Rightarrow> bool" where
  "span_creation TokenFetch = True"
| "span_creation (SpawnChild i n) = True"
| "span_creation (SetTag i k v) = (k \<in> {Component, UpstreamCluster, HttpUrl, HttpMethod})"
| "span_creation e = False"

text \<open>
  The spans that are spawned and not finished; and what holds of a trace at an instant
  when attempts do not overlap: at most one request is outstanding, at most one span is
  open, and when a span has just been spawned no request is outstanding.  \<open>always P t\<close>
  says that \<open>P\<close> held at every instant of the trace \<open>t\<close>, that is of every prefix.
\<close>

fun is_FinishSpan :: "effect \<Rightarrow> bool" where
  "is_FinishSpan (FinishSpan i) = True"
| "is_FinishSpan e = False"

definition open_spans :: "effect list \<Rightarrow> int" where
  "open_spans t = int (spawns t) - int (length (filter is_FinishSpan t))"

definition sequential :: "effect list \<Rightarrow> bool" where
  "sequential p \<longleftrightarrow>
     0 \<le> outstanding p \<and> outstanding p \<le> 1 \<and> 0 \<le> open_spans p \<and> open_spans p \<le> 1 \<and>
     (p \<noteq> [] \<and> is_SpawnChild (last p) \<longrightarrow> outstanding p = 0)"

definition always :: "(effect list \<Rightarrow> bool) \<Rightarrow> effect list \<Rightarrow> bool" where
  "always P t \<longleftrightarrow> (\<forall>n. P (take n t))"

fun steps_ok :: "(effect list \<Rightarrow> bool) \<Rightarrow> effect list \<Rightarrow> effect list \<Rightarrow> bool" where
  "steps_ok P t [] = True"
| "steps_ok P t (e # u) = (P (t @ [e]) \<and> steps_ok P (t @ [e]) u)"

section \<open>Properties\<close>

subsection \<open>Counting in traces\<close>

lemma sends_simps [simp]:
  "sends [] = 0" "sends (e # t) = (if is_Send e then 1 else 0) + sends t"
  "sends (t @ u) = sends t + sends u"
  by (simp_all add: sends_def)

lemma spawns_simps [simp]:
  "spawns [] = 0" "spawns (e # t) = (if is_SpawnChild e then 1 else 0) + spawns t"
  "spawns (t @ u) = spawns t + spawns u"
  by (simp_all add: spawns_def)

lemma fetches_simps [simp]:
  "fetches [] = 0" "fetches (e # t) = (if e = TokenFetch then 1 else 0) + fetches t"
  "fetches (t @ u) = fetches t + fetches u"
  by (simp_all add: fetches_def)

lemma dones_simps [simp]:
  "dones [] = 0" "dones (e # t) = (if is_OnDone e then 1 else 0) + dones t"
  "dones (t @ u) = dones t + dones u"
  by (simp_all add: dones_def)

lemma outstanding_simps [simp]:
  "outstanding [] = 0"
  "outstanding (e # t) = (if is_Send e then 1 else if is_settled e then -1 else 0) + outstanding t"
  "outstanding (t @ u) = outstanding t + outstanding u"
  by (cases e; simp add: outstanding_def sends_def)+

lemma makeOneCall_no_token:
  assumes "token_fn cfg (fetches (trace s)) = []"
  shows "makeOneCall cfg s = s\<lparr>request_count := request_count s + 1,
     trace := trace s @ [TokenFetch,
       OnDone (Status INTERNAL ''Missing access token for service control call'') []]\<rparr>"
  using assms by (simp add: makeOneCall_def emit_def)

lemma makeOneCall_token:
  assumes "token_fn cfg (fetches (trace s)) \<noteq> []"
  shows "makeOneCall cfg s = s\<lparr>request := Some (sends (trace s)),
     request_count := request_count s + 1,
     request_span := Some (spawns (trace s)),
     trace := trace s @ TokenFetch #
       span_setup cfg (spawns (trace s)) (code_span_name cfg (request_count s + 1)) @
       [Send (sends (trace s)) (cluster cfg)
          (prepareHeaders cfg (token_fn cfg (fetches (trace s)))) (timeout_ms cfg)]\<rparr>"
  using assms by (simp add: makeOneCall_def emit_def Let_def span_setup_def code_span_name_def)

lemma attemptRetry_eq:
  "attemptRetry cfg status s =
     (if (400 \<le> status \<and> status < 500) \<or> retries s = 0 then (False, s)
      else (True, makeOneCall cfg (s\<lparr>retries := retries s - 1, request := None\<rparr>)))"
  by (simp add: attemptRetry_def reset_def)

subsection \<open>What each operation does to the trace\<close>

lemma onSuccess_eq:
  assumes "request_span s = Some sid"
  shows "onSuccess cfg r s = Some
    (let s2 = s\<lparr>trace := trace s @
            [SetTag sid HttpStatusCode (Text (to_string (unat (status_code r)))), FinishSpan sid]\<rparr>
     in if status_code r = 200 then
          s2\<lparr>request := None, trace := trace s2 @ [OnDone Status_OK (body_of r), DeferredDelete]\<rparr>
        else if (400 \<le> status_code r \<and> status_code r < 500) \<or> retries s = 0 then
          s2\<lparr>request := None, trace := trace s2 @ [OnDone failed_status (body_of r), DeferredDelete]\<rparr>
        else makeOneCall cfg (s2\<lparr>retries := retries s - 1, request := None\<rparr>))"
  using assms
  by (simp add: onSuccess_def attemptRetry_eq emit_def reset_def deferredDelete_def Let_def
      body_of_def failed_status_def)

lemma onFailure_eq:
  assumes "request_span s = Some sid"
  shows "onFailure cfg reason s = Some
    (let s2 = s\<lparr>trace := trace s @
            [SetTag sid Error (Text (reason_text reason)), FinishSpan sid]\<rparr>
     in if retries s = 0 then
          s2\<lparr>request := None, trace := trace s2 @ [OnDone failed_status [], DeferredDelete]\<rparr>
        else makeOneCall cfg (s2\<lparr>retries := retries s - 1, request := None\<rparr>))"
  using assms
  by (cases reason)
     (simp_all add: onFailure_def attemptRetry_eq emit_def reset_def deferredDelete_def Let_def
      reason_text_def failed_status_def)

lemma cancel_eq:
  "cancel s = s\<lparr>request := None,
     trace := trace s @
       (case request_span s of None \<Rightarrow> []
        | Some sid \<Rightarrow> [SetTag sid Error Canceled, FinishSpan sid]) @
       (case request s of None \<Rightarrow> [] | Some h \<Rightarrow> [CancelRequest h]) @
       [DeferredDelete]\<rparr>"
  by (simp add: cancel_def emit_def reset_def deferredDelete_def Let_def
      split: option.splits)

lemma run_append:
  "run cfg (es @ fs) s = (case run cfg es s of None \<Rightarrow> None | Some s' \<Rightarrow> run cfg fs s')"
  by (induction es arbitrary: s) (simp_all split: option.splits)

lemma run_snoc:
  "run cfg (es @ [e]) s = Some s' \<longleftrightarrow>
     (\<exists>s1. run cfg es s = Some s1 \<and> enabled s1 e \<and> step cfg e s1 = Some s')"
  by (auto simp: run_append split: option.splits if_splits)

lemma step_Success_eq:
  assumes "request_span s = Some sid"
  shows "step cfg (Success r) s = Some
    (let s2 = s\<lparr>trace := trace s @ [Delivered,
             SetTag sid HttpStatusCode (Text (to_string (unat (status_code r)))),
             FinishSpan sid]\<rparr>
     in if status_code r = 200 then
          s2\<lparr>request := None, trace := trace s2 @ [OnDone Status_OK (body_of r), DeferredDelete]\<rparr>
        else if (400 \<le> status_code r \<and> status_code r < 500) \<or> retries s = 0 then
          s2\<lparr>request := None, trace := trace s2 @ [OnDone failed_status (body_of r), DeferredDelete]\<rparr>
        else makeOneCall cfg (s2\<lparr>retries := retries s - 1, request := None\<rparr>))"
proof -
  have "request_span (emit Delivered s) = Some sid"
    using assms by (simp add: emit_def)
  from onSuccess_eq [OF this] show ?thesis
    by (simp add: emit_def Let_def)
qed

lemma step_Failure_eq:
  assumes "request_span s = Some sid"
  shows "step cfg (Failure reason) s = Some
    (let s2 = s\<lparr>trace := trace s @ [Delivered,
             SetTag sid Error (Text (reason_text reason)), FinishSpan sid]\<rparr>
     in if retries s = 0 then
          s2\<lparr>request := None, trace := trace s2 @ [OnDone failed_status [], DeferredDelete]\<rparr>
        else makeOneCall cfg (s2\<lparr>retries := retries s - 1, request := None\<rparr>))"
proof -
  have "request_span (emit Delivered s) = Some sid"
    using assms by (simp add: emit_def)
  from onFailure_eq [OF this] show ?thesis
    by (simp add: emit_def Let_def)
qed

subsection \<open>The invariant\<close>

lemma inv_create: "call_inv r [] (create r)"
  by (simp add: call_inv_def create_def)

lemma ready_create: "ready r (create r)"
  by (simp add: ready_def create_def)

lemma ready_makeOneCall:
  assumes "ready r s" and "es \<noteq> []" and "Cancel \<notin> set es"
  shows "call_inv r es (makeOneCall cfg s)"
proof (cases "token_fn cfg (fetches (trace s)) = []")
  case True
  with assms show ?thesis
    by (simp add: makeOneCall_no_token) (simp add: call_inv_def ready_def)
next
  case False
  with assms show ?thesis
    by (simp add: makeOneCall_token) (simp add: call_inv_def ready_def span_setup_def)
qed

lemma ready_retry:
  assumes "call_inv r es s" and "request s = Some h" and "retries s \<noteq> 0"
    and "\<forall>e \<in> set d. \<not> is_Send e \<and> \<not> is_SpawnChild e \<and> \<not> is_OnDone e \<and> e \<noteq> TokenFetch
           \<and> e \<noteq> DeferredDelete"
    and "length (filter is_settled d) = 1"
  shows "ready r (s\<lparr>trace := trace s @ d, retries := retries s - 1, request := None\<rparr>)"
proof -
  have "unat (retries s - 1) = unat (retries s) - 1" and "0 < unat (retries s)"
    using assms(3) by (simp_all add: unat_minus_one unat_gt_0)
  moreover have "sends d = 0" "spawns d = 0" "dones d = 0" "fetches d = 0"
    using assms(4) by (simp_all add: sends_def spawns_def dones_def fetches_def)
  moreover have "outstanding d = -1"
    using assms(5) \<open>sends d = 0\<close> by (simp add: outstanding_def)
  ultimately show ?thesis
    using assms(1,2,4) by (auto simp: call_inv_def ready_def)
qed

lemma inv_step:
  assumes "call_inv r es s" and "enabled s e" and "step cfg e s = Some s'"
  shows "call_inv r (es @ [e]) s'"
proof (cases e)
  case Call
  with assms have es: "es = []" by (auto simp: call_inv_def)
  with assms have "s = create r" by (simp add: call_inv_def)
  with Call es assms(3) show ?thesis
    using ready_makeOneCall [OF ready_create, of "[Call]" r cfg] by (auto simp: call_def)
next
  case (Success resp)
  with assms obtain h where h: "request s = Some h" "request_span s = Some h"
    by (cases "request s") (auto simp: call_inv_def)
  let ?d = "[Delivered, SetTag h HttpStatusCode (Text (to_string (unat (status_code resp)))),
             FinishSpan h]"
  have s': "step cfg (Success resp) s = Some s'"
    using assms(3) Success by simp
  consider (ok) "status_code resp = 200"
    | (fail) "status_code resp \<noteq> 200"
        "(400 \<le> status_code resp \<and> status_code resp < 500) \<or> retries s = 0"
    | (retry) "status_code resp \<noteq> 200"
        "\<not> ((400 \<le> status_code resp \<and> status_code resp < 500) \<or> retries s = 0)"
    by blast
  then show ?thesis
  proof cases
    case ok
    with s' step_Success_eq [OF h(2), of cfg resp] have "s' = s\<lparr>request := None, trace := trace s @ ?d @
        [OnDone Status_OK (body_of resp), DeferredDelete]\<rparr>"
      by (simp add: Let_def)
    with assms(1) h Success show ?thesis by (simp add: call_inv_def)
  next
    case fail
    with s' step_Success_eq [OF h(2), of cfg resp] have "s' = s\<lparr>request := None, trace := trace s @ ?d @
        [OnDone failed_status (body_of resp), DeferredDelete]\<rparr>"
      by (simp add: Let_def)
    with assms(1) h Success show ?thesis by (simp add: call_inv_def)
  next
    case retry
    with s' step_Success_eq [OF h(2), of cfg resp] have "s' = makeOneCall cfg
        (s\<lparr>trace := trace s @ ?d, retries := retries s - 1, request := None\<rparr>)"
      by (simp add: Let_def)
    moreover have "ready r (s\<lparr>trace := trace s @ ?d, retries := retries s - 1, request := None\<rparr>)"
      using retry by (intro ready_retry [OF assms(1) h(1)]) simp_all
    moreover have "Cancel \<notin> set (es @ [e])"
      using assms(1) h Success by (simp add: call_inv_def)
    ultimately show ?thesis
      by (simp add: ready_makeOneCall)
  qed
next
  case (Failure reason)
  with assms obtain h where h: "request s = Some h" "request_span s = Some h"
    by (cases "request s") (auto simp: call_inv_def)
  let ?d = "[Delivered, SetTag h Error (Text (reason_text reason)), FinishSpan h]"
  have s': "step cfg (Failure reason) s = Some s'"
    using assms(3) Failure by simp
  show ?thesis
  proof (cases "retries s = 0")
    case True
    with s' step_Failure_eq [OF h(2), of cfg reason] have "s' = s\<lparr>request := None, trace := trace s @ ?d @
        [OnDone failed_status [], DeferredDelete]\<rparr>"
      by (simp add: Let_def)
    with assms(1) h Failure show ?thesis by (simp add: call_inv_def)
  next
    case False
    with s' step_Failure_eq [OF h(2), of cfg reason] have "s' = makeOneCall cfg
        (s\<lparr>trace := trace s @ ?d, retries := retries s - 1, request := None\<rparr>)"
      by (simp add: Let_def)
    moreover have "ready r (s\<lparr>trace := trace s @ ?d, retries := retries s - 1, request := None\<rparr>)"
      using False by (intro ready_retry [OF assms(1) h(1)]) simp_all
    moreover have "Cancel \<notin> set (es @ [e])"
      using assms(1) h Failure by (simp add: call_inv_def)
    ultimately show ?thesis
      by (simp add: ready_makeOneCall)
  qed
next
  case Cancel
  with assms have s': "s' = cancel s" and nd: "dones (trace s) = 0" "DeferredDelete \<notin> set (trace s)"
    by simp_all
  show ?thesis
  proof (cases "request s")
    case None
    with assms(1) nd have "es = []"
      by (auto simp: call_inv_def split: if_splits)
    with assms(1) have "s = create r" by (simp add: call_inv_def)
    with s' Cancel show ?thesis
      by (simp add: cancel_eq) (simp add: call_inv_def create_def)
  next
    case (Some h)
    with assms(1) s' Cancel show ?thesis
      by (simp add: cancel_eq) (simp add: call_inv_def)
  qed
qed

lemma inv_run:
  assumes "run cfg es (create r) = Some s"
  shows "call_inv r es s"
  using assms
proof (induction es arbitrary: s rule: rev_induct)
  case Nil
  then show ?case by (auto simp: inv_create)
next
  case (snoc e es)
  then obtain s1 where "run cfg es (create r) = Some s1" "enabled s1 e" "step cfg e s1 = Some s"
    by (auto simp: run_snoc)
  with snoc.IH show ?case by (blast intro: inv_step)
qed

subsection \<open>The shape of every step\<close>

lemma code_span_name_eq:
  assumes "n < 2 ^ 32"
  shows "code_span_name cfg (of_nat n + 1) = span_name cfg (Suc n)"
proof (cases "n = 0")
  case True
  then show ?thesis by (simp add: code_span_name_def span_name_def)
next
  case False
  have u: "unat (of_nat n :: 32 word) = n"
    using assms by (simp add: unat_of_nat)
  have "(of_nat n :: 32 word) \<noteq> 0"
    using u False by (metis unat_0)
  then have "(of_nat n + 1 :: 32 word) \<noteq> 1" by simp
  with u False show ?thesis by (simp add: code_span_name_def span_name_def)
qed

lemma makeOneCall_ready:
  assumes "ready r s"
  shows "makeOneCall cfg s =
    (if token_fn cfg (fetches (trace s)) = [] then
       s\<lparr>request_count := request_count s + 1,
         trace := trace s @ [TokenFetch, OnDone missing_token_status []]\<rparr>
     else
       s\<lparr>request := Some (fetches (trace s)),
         request_count := request_count s + 1,
         request_span := Some (fetches (trace s)),
         trace := trace s @ TokenFetch #
           span_setup cfg (fetches (trace s)) (span_name cfg (Suc (fetches (trace s)))) @
           [Send (fetches (trace s)) (cluster cfg)
              (prepareHeaders cfg (token_fn cfg (fetches (trace s)))) (timeout_ms cfg)]\<rparr>)"
proof -
  have "fetches (trace s) \<le> unat r" using assms by (simp add: ready_def)
  moreover have "unat r < 2 ^ 32" using unsigned_less [of r] by simp
  ultimately have "fetches (trace s) < 2 ^ 32" by simp
  then have "code_span_name cfg (request_count s + 1) = span_name cfg (Suc (fetches (trace s)))"
    using assms code_span_name_eq [of "fetches (trace s)" cfg] by (simp add: ready_def)
  then show ?thesis
    using assms
    by (simp add: makeOneCall_no_token makeOneCall_token ready_def missing_token_status_def)
qed

lemma step_cases [consumes 3, case_names first finish retry cancel_idle cancel_inflight]:
  assumes "call_inv r es s" and "enabled s e" and "step cfg e s = Some s'"
  obtains
    (first) "e = Call" "es = []" "s = create r" "s' = makeOneCall cfg (create r)"
  | (finish) h where "e \<noteq> Call" "e \<noteq> Cancel" "request s = Some h" "request_span s = Some h"
      "\<not> retried s e"
      "s' = s\<lparr>request := None,
         trace := trace s @ callback_effects e h @ [final_done e, DeferredDelete]\<rparr>"
  | (retry) h where "e \<noteq> Call" "e \<noteq> Cancel" "request s = Some h" "request_span s = Some h"
      "retried s e"
      "ready r (s\<lparr>trace := trace s @ callback_effects e h, retries := retries s - 1,
         request := None\<rparr>)"
      "s' = makeOneCall cfg (s\<lparr>trace := trace s @ callback_effects e h,
         retries := retries s - 1, request := None\<rparr>)"
  | (cancel_idle) "e = Cancel" "es = []" "s = create r" "s' = (create r)\<lparr>trace := [DeferredDelete]\<rparr>"
  | (cancel_inflight) h where "e = Cancel" "request s = Some h" "request_span s = Some h"
      "s' = s\<lparr>request := None,
         trace := trace s @ [SetTag h Error Canceled, FinishSpan h, CancelRequest h,
           DeferredDelete]\<rparr>"
proof (cases e)
  case Call
  with assms have es: "es = []" by (auto simp: call_inv_def)
  with assms have "s = create r" by (simp add: call_inv_def)
  with Call es assms(3) show ?thesis
    by (intro first) (auto simp: call_def)
next
  case (Success resp)
  with assms obtain h where h: "request s = Some h" "request_span s = Some h"
    by (cases "request s") (auto simp: call_inv_def)
  have s': "step cfg (Success resp) s = Some s'"
    using assms(3) Success by simp
  show ?thesis
  proof (cases "retried s e")
    case False
    with s' step_Success_eq [OF h(2), of cfg resp] Success
    have "s' = s\<lparr>request := None,
         trace := trace s @ callback_effects e h @ [final_done e, DeferredDelete]\<rparr>"
      by (auto simp: Let_def)
    with False h Success show ?thesis by (intro finish [of h]) simp_all
  next
    case True
    with s' step_Success_eq [OF h(2), of cfg resp] Success
    have "s' = makeOneCall cfg (s\<lparr>trace := trace s @ callback_effects e h,
         retries := retries s - 1, request := None\<rparr>)"
      by (auto simp: Let_def)
    moreover have "ready r (s\<lparr>trace := trace s @ callback_effects e h,
         retries := retries s - 1, request := None\<rparr>)"
      using True Success by (intro ready_retry [OF assms(1) h(1)]) simp_all
    ultimately show ?thesis
      using True h Success by (intro retry [of h]) simp_all
  qed
next
  case (Failure reason)
  with assms obtain h where h: "request s = Some h" "request_span s = Some h"
    by (cases "request s") (auto simp: call_inv_def)
  have s': "step cfg (Failure reason) s = Some s'"
    using assms(3) Failure by simp
  show ?thesis
  proof (cases "retried s e")
    case False
    with s' step_Failure_eq [OF h(2), of cfg reason] Failure
    have "s' = s\<lparr>request := None,
         trace := trace s @ callback_effects e h @ [final_done e, DeferredDelete]\<rparr>"
      by (auto simp: Let_def)
    with False h Failure show ?thesis by (intro finish [of h]) simp_all
  next
    case True
    with s' step_Failure_eq [OF h(2), of cfg reason] Failure
    have "s' = makeOneCall cfg (s\<lparr>trace := trace s @ callback_effects e h,
         retries := retries s - 1, request := None\<rparr>)"
      by (auto simp: Let_def)
    moreover have "ready r (s\<lparr>trace := trace s @ callback_effects e h,
         retries := retries s - 1, request := None\<rparr>)"
      using True Failure by (intro ready_retry [OF assms(1) h(1)]) simp_all
    ultimately show ?thesis
      using True h Failure by (intro retry [of h]) simp_all
  qed
next
  case Cancel
  with assms have s': "s' = cancel s" and nd: "dones (trace s) = 0" "DeferredDelete \<notin> set (trace s)"
    by simp_all
  show ?thesis
  proof (cases "request s")
    case None
    with assms(1) nd have es: "es = []"
      by (auto simp: call_inv_def split: if_splits)
    with assms(1) have "s = create r" by (simp add: call_inv_def)
    with s' Cancel es show ?thesis
      by (intro cancel_idle) (simp_all add: cancel_eq create_def)
  next
    case (Some h)
    with assms(1) s' Cancel show ?thesis
      by (intro cancel_inflight [of h]) (simp_all add: cancel_eq call_inv_def)
  qed
qed

lemma step_total:
  assumes "call_inv r es s" and "enabled s e"
  shows "\<exists>s'. step cfg e s = Some s'"
proof (cases e)
  case (Success resp)
  with assms obtain h where "request_span s = Some h"
    by (cases "request s") (auto simp: call_inv_def)
  from step_Success_eq [OF this] Success show ?thesis by simp
next
  case (Failure reason)
  with assms obtain h where "request_span s = Some h"
    by (cases "request s") (auto simp: call_inv_def)
  from step_Failure_eq [OF this] Failure show ?thesis by simp
qed simp_all

lemma callback_step [consumes 4, case_names cb]:
  assumes "call_inv r es s" and "enabled s e" and "e \<noteq> Call" and "e \<noteq> Cancel"
  obtains s' h where "step cfg e s = Some s'" and "request s = Some h"
    and "request_span s = Some h" and "fetches (trace s) = Suc h"
    and "retried s e \<Longrightarrow>
       retries s' = retries s - 1 \<and> request_count s' = request_count s + 1 \<and>
       trace s' = trace s @ callback_effects e h @ TokenFetch #
         (if token_fn cfg (Suc h) = [] then [OnDone missing_token_status []]
          else span_setup cfg (Suc h) (span_name cfg (Suc (Suc h))) @
               [Send (Suc h) (cluster cfg) (prepareHeaders cfg (token_fn cfg (Suc h)))
                  (timeout_ms cfg)]) \<and>
       request s' = (if token_fn cfg (Suc h) = [] then None else Some (Suc h)) \<and>
       request_span s' = (if token_fn cfg (Suc h) = [] then Some h else Some (Suc h))"
    and "\<not> retried s e \<Longrightarrow>
       retries s' = retries s \<and> request_count s' = request_count s \<and> request s' = None \<and>
       request_span s' = Some h \<and>
       trace s' = trace s @ callback_effects e h @ [final_done e, DeferredDelete]"
proof -
  obtain s' where s': "step cfg e s = Some s'"
    using step_total [OF assms(1,2)] by blast
  from assms(1,2) s' show ?thesis
  proof (cases rule: step_cases)
    case (finish h)
    have f: "fetches (trace s) = Suc h" using assms(1) finish(3) by (simp add: call_inv_def)
    show ?thesis
      by (rule that [OF s' finish(3,4) f]) (simp_all add: finish)
  next
    case (retry h)
    have f: "fetches (trace s) = Suc h" using assms(1) retry(3) by (simp add: call_inv_def)
    have c: "fetches (callback_effects e h) = 0"
      using retry(1,2) by (cases e) simp_all
    show ?thesis
      by (rule that [OF s' retry(3,4) f])
         (simp_all add: retry(5,7) makeOneCall_ready [OF retry(6)] c f retry(4))
  qed (use assms in simp_all)
qed

lemma band_unat:
  "(400 \<le> w \<and> w < 500) \<longleftrightarrow> (400 \<le> unat w \<and> unat w < 500)" for w :: "64 word"
  by (simp add: word_le_nat_alt word_less_nat_alt)

lemma unat_pred:
  "w \<noteq> 0 \<Longrightarrow> unat (w - 1) + 1 = unat w" for w :: "32 word"
  by (simp add: unat_minus_one unat_gt_0)

lemma callback_effects_counts:
  "fetches (callback_effects e h) = 0" "sends (callback_effects e h) = 0"
  "spawns (callback_effects e h) = 0" "dones (callback_effects e h) = 0"
  by (cases e; simp)+




lemma run_step:
  assumes "run cfg es s0 = Some s" and "enabled s e" and "step cfg e s = Some s'"
  shows "run cfg (es @ [e]) s0 = Some s'"
  using assms by (simp add: run_append)

lemma run_induct [consumes 1, case_names init step]:
  assumes "run cfg es (create r) = Some s"
    and "P [] (create r)"
    and "\<And>es s e s'. run cfg es (create r) = Some s \<Longrightarrow> call_inv r es s \<Longrightarrow> P es s \<Longrightarrow>
           enabled s e \<Longrightarrow> step cfg e s = Some s' \<Longrightarrow> P (es @ [e]) s'"
  shows "P es s"
  using assms(1)
proof (induction es arbitrary: s rule: rev_induct)
  case Nil
  then show ?case using assms(2) by auto
next
  case (snoc e es)
  then obtain s1 where s1: "run cfg es (create r) = Some s1" "enabled s1 e" "step cfg e s1 = Some s"
    by (auto simp: run_snoc)
  from s1(1) have "call_inv r es s1" by (rule inv_run)
  with s1 snoc.IH [OF s1(1)] show ?case by (intro assms(3))
qed

lemma step_trace [consumes 3, case_names attempt finish cancel]:
  assumes "call_inv r es s" and "enabled s e" and "step cfg e s = Some s'"
  obtains
    (attempt) pre n where
      "trace s' = trace s @ pre @ attempt_effects cfg n"
      "fetches (trace s) = n" "sends (trace s) = n" "spawns (trace s) = n"
      "dones (trace s) = 0"
      "(e = Call \<and> pre = [] \<and> trace s = []) \<or>
       (\<exists>h. n = Suc h \<and> request s = Some h \<and> pre = callback_effects e h \<and> e \<noteq> Call \<and>
            e \<noteq> Cancel \<and> retried s e)"
  | (finish) h where
      "trace s' = trace s @ callback_effects e h @ [final_done e, DeferredDelete]"
      "e \<noteq> Call" "e \<noteq> Cancel" "request s = Some h" "\<not> retried s e"
  | (cancel) "e = Cancel"
      "trace s' = trace s @
         (case request s of None \<Rightarrow> []
          | Some h \<Rightarrow> [SetTag h Error Canceled, FinishSpan h, CancelRequest h]) @
         [DeferredDelete]"
      "trace s = [] \<or> request s \<noteq> None"
  using assms
proof (cases rule: step_cases)
  case first
  have t0: "trace (create r) = []" by (simp add: create_def)
  have "trace (makeOneCall cfg (create r)) = attempt_effects cfg 0"
    by (simp add: makeOneCall_ready [OF ready_create] attempt_effects_def t0)
  with first t0 have "trace s' = trace s @ [] @ attempt_effects cfg 0" by simp
  with first t0 show ?thesis
    by (intro attempt [of "[]" 0]) simp_all
next
  case (finish h)
  then show ?thesis by (intro that(2) [of h]) simp_all
next
  case (retry h)
  have f: "fetches (trace s) = Suc h" "sends (trace s) = Suc h" "spawns (trace s) = Suc h"
    "dones (trace s) = 0"
    using assms(1) retry(3) by (simp_all add: call_inv_def)
  have c: "fetches (callback_effects e h) = 0"
    using retry(1,2) by (cases e) simp_all
  have "trace s' = trace s @ callback_effects e h @ attempt_effects cfg (Suc h)"
    by (simp add: retry(7) makeOneCall_ready [OF retry(6)] c f attempt_effects_def)
  with retry f show ?thesis
    by (intro attempt [of "callback_effects e h" "Suc h"]) simp_all
next
  case cancel_idle
  then show ?thesis by (intro cancel) (simp_all add: create_def)
next
  case (cancel_inflight h)
  then show ?thesis by (intro cancel) simp_all
qed

lemma final_done_kind [simp]:
  "final_done e \<noteq> TokenFetch" "is_OnDone (final_done e)" "\<not> is_Send (final_done e)"
  "\<not> is_SpawnChild (final_done e)" "\<not> is_settled (final_done e)"
  "final_done e \<noteq> DeferredDelete"
  by (cases e; simp)+

lemma OnDone_callback_effects: "OnDone st b \<notin> set (callback_effects e h)"
  by (cases e) simp_all

lemma OnDone_attempt_effects:
  "OnDone st b \<in> set (attempt_effects cfg n) \<Longrightarrow> st = missing_token_status \<and> b = []"
  by (auto simp: attempt_effects_def span_setup_def split: if_splits)

lemma OnDone_final_done:
  "OnDone st b = final_done e \<Longrightarrow> st = Status_OK \<or> st = failed_status"
  by (cases e) (auto split: if_splits)

lemma span_creation_callback_effects [simp]:
  "filter span_creation (callback_effects e h) = []"
  by (cases e) simp_all

lemma span_creation_final_done [simp]: "\<not> span_creation (final_done e)"
  by (cases e) simp_all

lemma span_creation_attempt_effects:
  "filter span_creation (attempt_effects cfg n) =
     (if token_fn cfg n = [] then [TokenFetch]
      else TokenFetch # span_setup cfg n (span_name cfg (Suc n)))"
  by (simp add: attempt_effects_def span_setup_def)

lemma attempt_effects_counts:
  "fetches (attempt_effects cfg n) = 1"
  "spawns (attempt_effects cfg n) = (if token_fn cfg n = [] then 0 else 1)"
  "sends (attempt_effects cfg n) = (if token_fn cfg n = [] then 0 else 1)"
  "dones (attempt_effects cfg n) = (if token_fn cfg n = [] then 1 else 0)"
  by (simp_all add: attempt_effects_def span_setup_def)

subsection \<open>Properties of every instant\<close>

lemma open_spans_simps [simp]:
  "open_spans [] = 0"
  "open_spans (e # t) =
     (if is_SpawnChild e then 1 else if is_FinishSpan e then -1 else 0) + open_spans t"
  "open_spans (t @ u) = open_spans t + open_spans u"
  by (cases e; simp add: open_spans_def spawns_def)+

lemma always_Nil: "always P [] = P []"
  by (simp add: always_def)

lemma always_last: "always P t \<Longrightarrow> P t"
  unfolding always_def by (drule spec [of _ "length t"]) simp

lemma always_snoc: "always P (t @ [e]) \<longleftrightarrow> always P t \<and> P (t @ [e])"
proof
  assume a: "always P (t @ [e])"
  have "P (take n t)" for n
  proof (cases "n \<le> length t")
    case True
    with a show ?thesis
      unfolding always_def by (drule_tac x = n in spec) simp
  next
    case False
    with a show ?thesis
      unfolding always_def by (drule_tac x = "length t" in spec) simp
  qed
  moreover have "P (t @ [e])" using always_last [OF a] .
  ultimately show "always P t \<and> P (t @ [e])" by (simp add: always_def)
next
  assume a: "always P t \<and> P (t @ [e])"
  show "always P (t @ [e])"
    unfolding always_def
  proof
    fix n
    show "P (take n (t @ [e]))"
    proof (cases "n \<le> length t")
      case True
      with a show ?thesis by (simp add: always_def)
    next
      case False
      with a show ?thesis by simp
    qed
  qed
qed

lemma always_append: "always P t \<Longrightarrow> steps_ok P t u \<Longrightarrow> always P (t @ u)"
proof (induction u arbitrary: t)
  case Nil
  then show ?case by simp
next
  case (Cons e u)
  from Cons.prems have "always P (t @ [e])" by (simp add: always_snoc)
  with Cons.prems have "always P ((t @ [e]) @ u)" by (intro Cons.IH) simp_all
  then show ?case by simp
qed

lemma steps_callback_attempt:
  assumes "outstanding t = 1" and "open_spans t = 1" and "e \<noteq> Call" and "e \<noteq> Cancel"
  shows "steps_ok sequential t (callback_effects e h @ attempt_effects cfg n)"
  using assms
  by (cases e) (simp_all add: sequential_def attempt_effects_def span_setup_def)

lemma steps_first_attempt:
  "steps_ok sequential [] (attempt_effects cfg n)"
  by (simp add: sequential_def attempt_effects_def span_setup_def)

lemma steps_callback_finish:
  assumes "outstanding t = 1" and "open_spans t = 1" and "e \<noteq> Call" and "e \<noteq> Cancel"
  shows "steps_ok sequential t (callback_effects e h @ [final_done e, DeferredDelete])"
  using assms
  by (cases e) (simp_all add: sequential_def)

lemma steps_cancel:
  assumes "outstanding t = 1" and "open_spans t = 1"
  shows "steps_ok sequential t [SetTag h Error Canceled, FinishSpan h, CancelRequest h,
    DeferredDelete]"
  using assms by (simp add: sequential_def)

lemma balance_callback_effects:
  assumes "e \<noteq> Call" and "e \<noteq> Cancel"
  shows "outstanding (callback_effects e h) = -1" "open_spans (callback_effects e h) = -1"
  using assms by (cases e; simp)+

lemma balance_attempt_effects:
  "open_spans (attempt_effects cfg n) = outstanding (attempt_effects cfg n)"
  by (simp add: attempt_effects_def span_setup_def)

lemma balance_final_done [simp]:
  "\<not> is_FinishSpan (final_done e)"
  by (cases e) simp_all

lemma sequential_run:
  assumes "run cfg es (create r) = Some s"
  shows "always sequential (trace s) \<and> open_spans (trace s) = outstanding (trace s)"
  using assms
proof (induction rule: run_induct)
  case init
  then show ?case by (simp add: create_def always_Nil sequential_def)
next
  case (step es s e s')
  from step.IH have a: "always sequential (trace s)"
    and b: "open_spans (trace s) = outstanding (trace s)" by simp_all
  from step.hyps(2,3,4) show ?case
  proof (cases rule: step_trace)
    case (attempt pre n)
    from attempt(6) show ?thesis
    proof (elim disjE exE conjE)
      assume c: "e = Call" "pre = []" "trace s = []"
      with attempt(1) have t: "trace s' = [] @ attempt_effects cfg n" by simp
      have "always sequential ([] @ attempt_effects cfg n)"
        by (intro always_append steps_first_attempt) (simp add: always_Nil sequential_def)
      with t show ?thesis by (simp add: balance_attempt_effects)
    next
      fix h
      assume c: "n = Suc h" "request s = Some h" "pre = callback_effects e h" "e \<noteq> Call"
        "e \<noteq> Cancel"
      from step.hyps(2) c(2) have o: "outstanding (trace s) = 1" by (simp add: call_inv_def)
      with b have p: "open_spans (trace s) = 1" by simp
      have "always sequential (trace s @ callback_effects e h @ attempt_effects cfg n)"
        using a o p c(4,5) by (intro always_append steps_callback_attempt)
      moreover have "open_spans (trace s') = outstanding (trace s')"
        using attempt(1) c(3,4,5) o p
        by (simp add: balance_callback_effects balance_attempt_effects)
      ultimately show ?thesis using attempt(1) c(3) by simp
    qed
  next
    case (finish h)
    from step.hyps(2) finish(4) have o: "outstanding (trace s) = 1" by (simp add: call_inv_def)
    with b have p: "open_spans (trace s) = 1" by simp
    have "always sequential (trace s @ callback_effects e h @ [final_done e, DeferredDelete])"
      using a o p finish(2,3) by (intro always_append steps_callback_finish)
    moreover have "open_spans (trace s') = outstanding (trace s')"
      using finish(1,2,3) o p by (simp add: balance_callback_effects)
    ultimately show ?thesis using finish(1) by simp
  next
    case cancel
    show ?thesis
    proof (cases "request s")
      case None
      with cancel have t: "trace s = []" "trace s' = [] @ [DeferredDelete]" by simp_all
      have "always sequential ([] @ [DeferredDelete])"
        by (intro always_append) (simp_all add: always_Nil sequential_def)
      with t show ?thesis by simp
    next
      case (Some h)
      with step.hyps(2) have o: "outstanding (trace s) = 1" by (simp add: call_inv_def)
      with b have p: "open_spans (trace s) = 1" by simp
      from Some cancel have t: "trace s' = trace s @
        [SetTag h Error Canceled, FinishSpan h, CancelRequest h, DeferredDelete]" by simp
      have "always sequential (trace s @
        [SetTag h Error Canceled, FinishSpan h, CancelRequest h, DeferredDelete])"
        using a o p by (intro always_append steps_cancel)
      with t o p show ?thesis by simp
    qed
  qed
qed

lemma retries_makeOneCall [simp]: "retries (makeOneCall cfg s) = retries s"
  by (simp add: makeOneCall_def emit_def Let_def)

lemma retries_step:
  assumes "call_inv r es s" and "enabled s e" and "step cfg e s = Some s'"
  shows "retries s' = retries s \<or>
    0 < unat (retries s) \<and> unat (retries s') + 1 = unat (retries s)"
  using assms
proof (cases rule: step_cases)
  case (retry h)
  then have nz: "retries s \<noteq> 0" by (cases e) simp_all
  from retry(7) have "retries s' = retries s - 1" by simp
  with unat_pred [OF nz] nz show ?thesis by (simp add: unat_gt_0)
qed (simp_all add: create_def)

lemma retries_bound:
  assumes "run cfg es (create r) = Some s"
  shows "unat (retries s) \<le> unat r"
  using assms
proof (induction rule: run_induct)
  case init
  then show ?case by (simp add: create_def)
next
  case (step es s e s')
  from retries_step [OF step.hyps(2,3,4)] step.IH show ?case by auto
qed

subsection \<open>The outcome of every step\<close>

lemma retried_eq:
  "retried s e \<longleftrightarrow>
     non_success e \<and>
     \<not> (400 \<le> unat (observed_status e) \<and> unat (observed_status e) < 500) \<and>
     0 < unat (retries s)"
  by (cases e) (simp_all add: band_unat unat_gt_0)

lemma step_outcome:
  assumes "call_inv r es s" and "enabled s e"
  shows "\<exists>s'. step cfg e s = Some s' \<and>
    (if e = Cancel then dones (trace s') = 0 \<and> outstanding (trace s') = 0
     else if (e = Call \<or> retried s e) \<and> token_fn cfg (fetches (trace s)) \<noteq> []
       then dones (trace s') = 0 \<and> outstanding (trace s') = 1 \<and>
            sends (trace s') = Suc (sends (trace s))
       else dones (trace s') = 1 \<and> outstanding (trace s') = 0 \<and>
            sends (trace s') = sends (trace s))"
proof -
  obtain s' where s': "step cfg e s = Some s'"
    using step_total [OF assms] by blast
  have "if e = Cancel then dones (trace s') = 0 \<and> outstanding (trace s') = 0
     else if (e = Call \<or> retried s e) \<and> token_fn cfg (fetches (trace s)) \<noteq> []
       then dones (trace s') = 0 \<and> outstanding (trace s') = 1 \<and>
            sends (trace s') = Suc (sends (trace s))
       else dones (trace s') = 1 \<and> outstanding (trace s') = 0 \<and>
            sends (trace s') = sends (trace s)"
    using assms s'
  proof (cases rule: step_trace)
    case (attempt pre n)
    from attempt(6) have k: "e \<noteq> Cancel" "e = Call \<or> retried s e" by auto
    from attempt(6) assms(1) have p: "dones pre = 0" "sends pre = 0"
      "outstanding (trace s) + outstanding pre = 0"
      by (auto simp: callback_effects_counts balance_callback_effects call_inv_def)
    have o: "outstanding (trace s') =
        (outstanding (trace s) + outstanding pre) + outstanding (attempt_effects cfg n)"
      by (simp add: attempt(1))
    have oa: "outstanding (attempt_effects cfg n) = (if token_fn cfg n = [] then 0 else 1)"
      by (simp add: attempt_effects_def span_setup_def)
    show ?thesis
      using k p(1,2) attempt(2,5)
      by (simp add: o p(3) oa attempt(1) attempt_effects_counts)
  next
    case (finish h)
    from assms(1) finish(4) have d: "dones (trace s) = 0" "outstanding (trace s) = 1"
      by (simp_all add: call_inv_def)
    show ?thesis
      using finish(2,3,5) d
      by (simp add: finish(1) callback_effects_counts balance_callback_effects)
  next
    case cancel
    from assms(2) cancel(1) have d: "dones (trace s) = 0" by simp
    show ?thesis
    proof (cases "request s")
      case None
      with cancel d show ?thesis by auto
    next
      case (Some h)
      with assms(1) have "outstanding (trace s) = 1" by (simp add: call_inv_def)
      with Some cancel d show ?thesis by simp
    qed
  qed
  with s' show ?thesis by blast
qed

lemma handle_agrees:
  assumes "run cfg es (create r) = Some s"
  shows "case request s of
      None \<Rightarrow> outstanding (trace s) = 0 \<and> open_spans (trace s) = 0
    | Some h \<Rightarrow> outstanding (trace s) = 1 \<and> open_spans (trace s) = 1 \<and>
        Suc h = sends (trace s) \<and> request_span s = Some h"
proof -
  have i: "call_inv r es s" using assms by (rule inv_run)
  have "open_spans (trace s) = outstanding (trace s)"
    using sequential_run [OF assms] by simp
  with i show ?thesis
    by (cases "request s") (simp_all add: call_inv_def)
qed

lemma attempt_entry:
  assumes "call_inv r es s" and "open_spans (trace s) = outstanding (trace s)"
    and "enabled s e"
  shows "\<exists>s'. step cfg e s = Some s' \<and>
    (e = Call \<longrightarrow> request s = None \<and> s' = makeOneCall cfg s) \<and>
    (retried s e \<longrightarrow>
       (\<exists>h. request s = Some h \<and>
          s' = makeOneCall cfg (s\<lparr>trace := trace s @ callback_effects e h,
                 retries := retries s - 1, request := None\<rparr>) \<and>
          outstanding (trace s @ callback_effects e h) = 0 \<and>
          open_spans (trace s @ callback_effects e h) = 0)) \<and>
    (e \<noteq> Call \<and> \<not> retried s e \<longrightarrow>
       fetches (trace s') = fetches (trace s) \<and> sends (trace s') = sends (trace s) \<and>
       request s' = None)"
proof -
  obtain s' where st: "step cfg e s = Some s'"
    using step_total [OF assms(1,3)] by blast
  have "(e = Call \<longrightarrow> request s = None \<and> s' = makeOneCall cfg s) \<and>
    (retried s e \<longrightarrow>
       (\<exists>h. request s = Some h \<and>
          s' = makeOneCall cfg (s\<lparr>trace := trace s @ callback_effects e h,
                 retries := retries s - 1, request := None\<rparr>) \<and>
          outstanding (trace s @ callback_effects e h) = 0 \<and>
          open_spans (trace s @ callback_effects e h) = 0)) \<and>
    (e \<noteq> Call \<and> \<not> retried s e \<longrightarrow>
       fetches (trace s') = fetches (trace s) \<and> sends (trace s') = sends (trace s) \<and>
       request s' = None)"
    using assms(1,3) st
  proof (cases rule: step_cases)
    case first
    then show ?thesis by (simp add: create_def)
  next
    case (finish h)
    then show ?thesis by (simp add: callback_effects_counts)
  next
    case (retry h)
    from assms(1) retry(3) have o: "outstanding (trace s) = 1" by (simp add: call_inv_def)
    with assms(2) have p: "open_spans (trace s) = 1" by simp
    have "outstanding (trace s @ callback_effects e h) = 0 \<and>
          open_spans (trace s @ callback_effects e h) = 0"
      using o p retry(1,2) by (simp add: balance_callback_effects)
    with retry show ?thesis by simp
  next
    case cancel_idle
    then show ?thesis by (simp add: create_def)
  next
    case (cancel_inflight h)
    then show ?thesis by simp
  qed
  with st show ?thesis by blast
qed

lemma terminal_report:
  assumes "call_inv r es s" and "enabled s e" and "e \<noteq> Cancel"
    and "\<not> ((e = Call \<or> retried s e) \<and> token_fn cfg (fetches (trace s)) \<noteq> [])"
  shows "\<exists>s'. step cfg e s = Some s' \<and> dones (trace s') = 1 \<and>
    (if e = Call \<or> retried s e then OnDone missing_token_status [] else final_done e)
      \<in> set (trace s')"
proof -
  from step_outcome [OF assms(1,2), of cfg] assms(3,4) obtain s' where
    st: "step cfg e s = Some s'" and d: "dones (trace s') = 1"
    by (elim exE conjE) (simp del: step.simps)
  from assms(1,2) st
  have "(if e = Call \<or> retried s e then OnDone missing_token_status [] else final_done e)
      \<in> set (trace s')"
  proof (cases rule: step_trace)
    case (attempt pre n)
    from attempt(6) have k: "e = Call \<or> retried s e" by auto
    with assms(4) attempt(2) have "token_fn cfg n = []" by simp
    with attempt(1) k show ?thesis by (simp add: attempt_effects_def)
  next
    case (finish h)
    then show ?thesis by simp
  next
    case cancel
    with assms(3) show ?thesis by simp
  qed
  with st d show ?thesis by blast
qed

lemma final_done_non_success:
  assumes "non_success e"
  shows "final_done e = OnDone (Status INTERNAL ''Failed to call service control'')
    (case e of Success resp \<Rightarrow> (case resp_body resp of None \<Rightarrow> [] | Some b \<Rightarrow> b) | _ \<Rightarrow> [])"
  using assms by (cases e) (simp_all add: failed_status_def body_of_def)

subsection \<open>The retry policy\<close>



subsection \<open>One report to the caller\<close>

text \<open>
  C2.  In every reachable state: if the caller has cancelled, \<^verbatim>\<open>on_done_\<close> has not been
  called; if the caller has not cancelled, \<^verbatim>\<open>call()\<close> has been invoked and the transport
  owes no answer (the call has ended: by success, by a failure that is not retried, by
  exhausted retries or by a missing token), \<^verbatim>\<open>on_done_\<close> has been called exactly once;
  while a request is outstanding it has not been called; it is never called twice.  Once
  it has been called, or the caller has cancelled, the transport owes no answer, no
  event can happen any more, and so no run from that state sends another request.

  And every event that can happen does end, in a state that is reachable again:
  \<^verbatim>\<open>cancel()\<close> returns with \<^verbatim>\<open>on_done_\<close> never called and nothing outstanding; a step
  that goes on (\<^verbatim>\<open>call()\<close>, or a callback with an outcome other than success, a status
  outside \<open>[400, 500)\<close> and budget left, each with a token that is not empty) returns
  with one more request sent, that one outstanding and \<^verbatim>\<open>on_done_\<close> not yet called; and
  every other step (a response with status 200, a failure that is not retried, exhausted
  retries, an empty token) returns with \<^verbatim>\<open>on_done_\<close> called exactly once, nothing
  outstanding and nothing more sent.
\<close>

theorem completion_reported_once:
  assumes "run cfg es (create r) = Some s"
  shows "(Cancel \<in> set es \<longrightarrow> dones (trace s) = 0) \<and>
    (Cancel \<notin> set es \<and> es \<noteq> [] \<and> outstanding (trace s) = 0 \<longrightarrow> dones (trace s) = 1) \<and>
    (outstanding (trace s) \<noteq> 0 \<longrightarrow> dones (trace s) = 0) \<and>
    dones (trace s) \<le> 1 \<and>
    (0 < dones (trace s) \<or> Cancel \<in> set es \<longrightarrow>
       outstanding (trace s) = 0 \<and> (\<forall>e. \<not> enabled s e) \<and>
       (\<forall>fs s'. run cfg fs s = Some s' \<longrightarrow> sends (trace s') = sends (trace s))) \<and>
    (\<forall>e. enabled s e \<longrightarrow>
       (\<exists>s'. step cfg e s = Some s' \<and> run cfg (es @ [e]) (create r) = Some s' \<and>
          (if e = Cancel then dones (trace s') = 0 \<and> outstanding (trace s') = 0
           else if (e = Call \<or>
                    non_success e \<and>
                    \<not> (400 \<le> unat (observed_status e) \<and> unat (observed_status e) < 500) \<and>
                    0 < unat (retries s)) \<and>
                   token_fn cfg (fetches (trace s)) \<noteq> []
             then dones (trace s') = 0 \<and> outstanding (trace s') = 1 \<and>
                  sends (trace s') = Suc (sends (trace s))
             else dones (trace s') = 1 \<and> outstanding (trace s') = 0 \<and>
                  sends (trace s') = sends (trace s))))"
proof -
  have i: "call_inv r es s" using assms(1) by (rule inv_run)
  have a: "(Cancel \<in> set es \<longrightarrow> dones (trace s) = 0) \<and>
    (Cancel \<notin> set es \<and> es \<noteq> [] \<and> outstanding (trace s) = 0 \<longrightarrow> dones (trace s) = 1) \<and>
    (outstanding (trace s) \<noteq> 0 \<longrightarrow> dones (trace s) = 0) \<and> dones (trace s) \<le> 1"
    using i by (cases "request s") (auto simp: call_inv_def create_def split: if_splits)
  have b: "outstanding (trace s) = 0 \<and> (\<forall>e. \<not> enabled s e) \<and>
       (\<forall>fs s'. run cfg fs s = Some s' \<longrightarrow> sends (trace s') = sends (trace s))"
    if t: "0 < dones (trace s) \<or> Cancel \<in> set es"
  proof -
    from i t have n: "request s = None" "es \<noteq> []"
      by (cases "request s"; auto simp: call_inv_def create_def)+
    with i have o: "outstanding (trace s) = 0" "trace s \<noteq> []"
      by (simp_all add: call_inv_def)
    from i n t have d: "0 < dones (trace s) \<or> DeferredDelete \<in> set (trace s)"
      by (auto simp: call_inv_def split: if_splits)
    have ne: "\<not> enabled s e" for e
      using o d by (cases e) auto
    have "sends (trace s') = sends (trace s)" if "run cfg fs s = Some s'" for fs s'
      using that ne by (cases fs) (auto split: if_splits)
    with o ne show ?thesis by blast
  qed
  have c: "\<exists>s'. step cfg e s = Some s' \<and> run cfg (es @ [e]) (create r) = Some s' \<and>
          (if e = Cancel then dones (trace s') = 0 \<and> outstanding (trace s') = 0
           else if (e = Call \<or>
                    non_success e \<and>
                    \<not> (400 \<le> unat (observed_status e) \<and> unat (observed_status e) < 500) \<and>
                    0 < unat (retries s)) \<and>
                   token_fn cfg (fetches (trace s)) \<noteq> []
             then dones (trace s') = 0 \<and> outstanding (trace s') = 1 \<and>
                  sends (trace s') = Suc (sends (trace s))
             else dones (trace s') = 1 \<and> outstanding (trace s') = 0 \<and>
                  sends (trace s') = sends (trace s))"
    if en: "enabled s e" for e
  proof -
    from step_outcome [OF i en, of cfg] obtain s' where
      st: "step cfg e s = Some s'" and
      o: "if e = Cancel then dones (trace s') = 0 \<and> outstanding (trace s') = 0
     else if (e = Call \<or> retried s e) \<and> token_fn cfg (fetches (trace s)) \<noteq> []
       then dones (trace s') = 0 \<and> outstanding (trace s') = 1 \<and>
            sends (trace s') = Suc (sends (trace s))
       else dones (trace s') = 1 \<and> outstanding (trace s') = 0 \<and>
            sends (trace s') = sends (trace s)"
      by (elim exE conjE) (rule that)
    have rn: "run cfg (es @ [e]) (create r) = Some s'"
      using run_step [OF assms en st] .
    from o have "if e = Cancel then dones (trace s') = 0 \<and> outstanding (trace s') = 0
           else if (e = Call \<or>
                    non_success e \<and>
                    \<not> (400 \<le> unat (observed_status e) \<and> unat (observed_status e) < 500) \<and>
                    0 < unat (retries s)) \<and>
                   token_fn cfg (fetches (trace s)) \<noteq> []
             then dones (trace s') = 0 \<and> outstanding (trace s') = 1 \<and>
                  sends (trace s') = Suc (sends (trace s))
             else dones (trace s') = 1 \<and> outstanding (trace s') = 0 \<and>
                  sends (trace s') = sends (trace s)"
      by (simp only: retried_eq)
    with st rn show ?thesis by (intro exI [of _ s'] conjI)
  qed
  from a b c show ?thesis by blast
qed

theorem completion_reported_once_witness:
  "(\<exists>s. run example_config [Call] (create 0) = Some s \<and>
        enabled s (Failure Reset) \<and>
        (\<exists>s'. step example_config (Failure Reset) s = Some s' \<and>
           dones (trace s') = 1 \<and> outstanding (trace s') = 0) \<and>
        enabled s (Success \<lparr>status_code = 404, resp_body = None\<rparr>) \<and>
        (\<exists>s'. step example_config (Success \<lparr>status_code = 404, resp_body = None\<rparr>) s = Some s' \<and>
           dones (trace s') = 1 \<and> outstanding (trace s') = 0) \<and>
        enabled s (Success \<lparr>status_code = 503, resp_body = None\<rparr>) \<and>
        (\<exists>s'. step example_config (Success \<lparr>status_code = 503, resp_body = None\<rparr>) s = Some s' \<and>
           dones (trace s') = 1 \<and> outstanding (trace s') = 0) \<and>
        enabled s (Success \<lparr>status_code = 200, resp_body = Some ''OK''\<rparr>) \<and>
        (\<exists>s'. step example_config (Success \<lparr>status_code = 200, resp_body = Some ''OK''\<rparr>) s = Some s' \<and>
           dones (trace s') = 1 \<and> outstanding (trace s') = 0) \<and>
        enabled s Cancel \<and>
        (\<exists>s'. step example_config Cancel s = Some s' \<and>
           dones (trace s') = 0 \<and> outstanding (trace s') = 0)) \<and>
   (run example_no_token [] (create 0) = Some (create 0) \<and> enabled (create 0) Call \<and>
      (\<exists>s'. step example_no_token Call (create 0) = Some s' \<and>
         dones (trace s') = 1 \<and> outstanding (trace s') = 0)) \<and>
   (\<exists>s. run example_config [Call, Success \<lparr>status_code = 200, resp_body = Some ''OK''\<rparr>]
          (create 3) = Some s \<and>
        Cancel \<notin> set [Call, Success \<lparr>status_code = 200, resp_body = Some ''OK''\<rparr>] \<and>
        outstanding (trace s) = 0 \<and> dones (trace s) = 1 \<and> (\<forall>e. \<not> enabled s e)) \<and>
   (\<exists>s. run example_config [Call, Cancel] (create 3) = Some s \<and>
        Cancel \<in> set [Call, Cancel] \<and> dones (trace s) = 0 \<and> (\<forall>e. \<not> enabled s e))"
proof -
  let ?s = "call example_config (create 0)"
  have h: "run example_config [Call] (create 0) = Some ?s"
    by (simp add: create_def)
  have en: "enabled ?s (Failure Reset)"
    "enabled ?s (Success \<lparr>status_code = 404, resp_body = None\<rparr>)"
    "enabled ?s (Success \<lparr>status_code = 503, resp_body = None\<rparr>)"
    "enabled ?s (Success \<lparr>status_code = 200, resp_body = Some ''OK''\<rparr>)"
    "enabled ?s Cancel"
    by (simp_all add: call_def makeOneCall_token example_config_def create_def span_setup_def)
  have r0: "unat (retries ?s) = 0"
    by (simp add: call_def makeOneCall_token example_config_def create_def)
  have all: "\<forall>e. enabled ?s e \<longrightarrow>
       (\<exists>s'. step example_config e ?s = Some s' \<and>
          run example_config ([Call] @ [e]) (create 0) = Some s' \<and>
          (if e = Cancel then dones (trace s') = 0 \<and> outstanding (trace s') = 0
           else if (e = Call \<or>
                    non_success e \<and>
                    \<not> (400 \<le> unat (observed_status e) \<and> unat (observed_status e) < 500) \<and>
                    0 < unat (retries ?s)) \<and>
                   token_fn example_config (fetches (trace ?s)) \<noteq> []
             then dones (trace s') = 0 \<and> outstanding (trace s') = 1 \<and>
                  sends (trace s') = Suc (sends (trace ?s))
             else dones (trace s') = 1 \<and> outstanding (trace s') = 0 \<and>
                  sends (trace s') = sends (trace ?s)))"
    using completion_reported_once [OF h] by (elim conjE)
  have 1: "\<exists>s'. step example_config (Failure Reset) ?s = Some s' \<and>
           dones (trace s') = 1 \<and> outstanding (trace s') = 0"
    using all [rule_format, OF en(1)] r0 by (elim exE conjE) (simp del: step.simps)
  have 2: "\<exists>s'. step example_config (Success \<lparr>status_code = 404, resp_body = None\<rparr>) ?s = Some s' \<and>
           dones (trace s') = 1 \<and> outstanding (trace s') = 0"
    using all [rule_format, OF en(2)] r0 by (elim exE conjE) (simp del: step.simps)
  have 3: "\<exists>s'. step example_config (Success \<lparr>status_code = 503, resp_body = None\<rparr>) ?s = Some s' \<and>
           dones (trace s') = 1 \<and> outstanding (trace s') = 0"
    using all [rule_format, OF en(3)] r0 by (elim exE conjE) (simp del: step.simps)
  have 4: "\<exists>s'. step example_config (Success \<lparr>status_code = 200, resp_body = Some ''OK''\<rparr>) ?s = Some s' \<and>
           dones (trace s') = 1 \<and> outstanding (trace s') = 0"
    using all [rule_format, OF en(4)] r0 by (elim exE conjE) (simp del: step.simps)
  have 5: "\<exists>s'. step example_config Cancel ?s = Some s' \<and>
           dones (trace s') = 0 \<and> outstanding (trace s') = 0"
    using all [rule_format, OF en(5)] by (elim exE conjE) (simp del: step.simps)
  have A: "\<exists>s. run example_config [Call] (create 0) = Some s \<and>
        enabled s (Failure Reset) \<and>
        (\<exists>s'. step example_config (Failure Reset) s = Some s' \<and>
           dones (trace s') = 1 \<and> outstanding (trace s') = 0) \<and>
        enabled s (Success \<lparr>status_code = 404, resp_body = None\<rparr>) \<and>
        (\<exists>s'. step example_config (Success \<lparr>status_code = 404, resp_body = None\<rparr>) s = Some s' \<and>
           dones (trace s') = 1 \<and> outstanding (trace s') = 0) \<and>
        enabled s (Success \<lparr>status_code = 503, resp_body = None\<rparr>) \<and>
        (\<exists>s'. step example_config (Success \<lparr>status_code = 503, resp_body = None\<rparr>) s = Some s' \<and>
           dones (trace s') = 1 \<and> outstanding (trace s') = 0) \<and>
        enabled s (Success \<lparr>status_code = 200, resp_body = Some ''OK''\<rparr>) \<and>
        (\<exists>s'. step example_config (Success \<lparr>status_code = 200, resp_body = Some ''OK''\<rparr>) s = Some s' \<and>
           dones (trace s') = 1 \<and> outstanding (trace s') = 0) \<and>
        enabled s Cancel \<and>
        (\<exists>s'. step example_config Cancel s = Some s' \<and>
           dones (trace s') = 0 \<and> outstanding (trace s') = 0)"
    by (rule exI [of _ ?s]) (intro conjI h en 1 2 3 4 5)
  have h0: "run example_no_token [] (create 0) = Some (create 0)" by simp
  have en0: "enabled (create 0) Call" by (simp add: create_def)
  have tk: "token_fn example_no_token (fetches (trace (create 0))) = []"
    by (simp add: example_no_token_def)
  have "\<forall>e. enabled (create 0) e \<longrightarrow>
       (\<exists>s'. step example_no_token e (create 0) = Some s' \<and>
          run example_no_token ([] @ [e]) (create 0) = Some s' \<and>
          (if e = Cancel then dones (trace s') = 0 \<and> outstanding (trace s') = 0
           else if (e = Call \<or>
                    non_success e \<and>
                    \<not> (400 \<le> unat (observed_status e) \<and> unat (observed_status e) < 500) \<and>
                    0 < unat (retries (create 0))) \<and>
                   token_fn example_no_token (fetches (trace (create 0))) \<noteq> []
             then dones (trace s') = 0 \<and> outstanding (trace s') = 1 \<and>
                  sends (trace s') = Suc (sends (trace (create 0)))
             else dones (trace s') = 1 \<and> outstanding (trace s') = 0 \<and>
                  sends (trace s') = sends (trace (create 0))))"
    using completion_reported_once [OF h0] by (elim conjE)
  from this [rule_format, OF en0] tk
  have 6: "\<exists>s'. step example_no_token Call (create 0) = Some s' \<and>
         dones (trace s') = 1 \<and> outstanding (trace s') = 0"
    by (elim exE conjE) (simp del: step.simps)
  let ?es = "[Call, Success \<lparr>status_code = 200, resp_body = Some ''OK''\<rparr>]"
  have "\<exists>s. run example_config ?es (create 3) = Some s \<and> outstanding (trace s) = 0"
    by (simp add: call_def makeOneCall_token example_config_def create_def span_setup_def
        onSuccess_def emit_def deferredDelete_def reset_def Let_def)
  then obtain s where s: "run example_config ?es (create 3) = Some s"
    "outstanding (trace s) = 0" by blast
  have c: "Cancel \<notin> set ?es" by simp
  from completion_reported_once [OF s(1)] s(2) c
  have 7: "dones (trace s) = 1 \<and> (\<forall>e. \<not> enabled s e)" by simp
  have "\<exists>s. run example_config [Call, Cancel] (create 3) = Some s"
    by (simp add: call_def makeOneCall_token example_config_def create_def span_setup_def)
  then obtain u where u: "run example_config [Call, Cancel] (create 3) = Some u" by blast
  from completion_reported_once [OF u]
  have 8: "dones (trace u) = 0 \<and> (\<forall>e. \<not> enabled u e)" by simp
  have B: "\<exists>s. run example_config ?es (create 3) = Some s \<and> Cancel \<notin> set ?es \<and>
        outstanding (trace s) = 0 \<and> dones (trace s) = 1 \<and> (\<forall>e. \<not> enabled s e)"
    using s c 7 by blast
  have C: "\<exists>s. run example_config [Call, Cancel] (create 3) = Some s \<and>
        Cancel \<in> set [Call, Cancel] \<and> dones (trace s) = 0 \<and> (\<forall>e. \<not> enabled s e)"
    using u 8 by auto
  from A h0 en0 6 B C show ?thesis by (intro conjI)
qed

subsection \<open>An empty token\<close>

text \<open>
  C3, with the status the code reports.  Take any step from a reachable state that
  starts an attempt (\<^verbatim>\<open>call()\<close>, or a callback with an outcome other than success, a
  status outside \<open>[400, 500)\<close> and budget left) at which the token function returns the
  empty string.  The step returns, the token function has been invoked once, and the
  step ends, within the same invocation, with \<^verbatim>\<open>on_done_\<close> called with the status
  \<open>INTERNAL\<close>, "Missing access token for service control call", and an empty body.  The
  code is the one every other failure carries (C10): there is no status of an
  authentication class.  This is the only call of \<^verbatim>\<open>on_done_\<close> in the whole trace; the
  step spawns no span and sends no request, and it leaves no handle behind.
\<close>

theorem empty_token_fails_at_once:
  assumes "run cfg es (create r) = Some s" and "enabled s e"
    and "e = Call \<or>
         non_success e \<and>
         \<not> (400 \<le> unat (observed_status e) \<and> unat (observed_status e) < 500) \<and>
         0 < unat (retries s)"
    and "token_fn cfg (fetches (trace s)) = []"
  shows "\<exists>s' pre. step cfg e s = Some s' \<and>
         fetches (trace s') = Suc (fetches (trace s)) \<and>
         trace s' = trace s @ pre @
           [TokenFetch,
            OnDone (Status INTERNAL ''Missing access token for service control call'') []] \<and>
         dones pre = 0 \<and> sends pre = 0 \<and> spawns pre = 0 \<and> fetches pre = 0 \<and>
         dones (trace s) = 0 \<and> dones (trace s') = 1 \<and>
         spawns (trace s') = spawns (trace s) \<and> sends (trace s') = sends (trace s) \<and>
         request s' = None"
proof -
  have i: "call_inv r es s" using assms(1) by (rule inv_run)
  obtain s' where st: "step cfg e s = Some s'"
    using step_total [OF i assms(2)] by blast
  have "call_inv r (es @ [e]) s'" using i assms(2) st by (rule inv_step)
  have k: "e = Call \<or> retried s e" using assms(3) by (simp add: retried_eq)
  from i assms(2) st show ?thesis
  proof (cases rule: step_trace)
    case (attempt pre n)
    have p: "dones pre = 0 \<and> sends pre = 0 \<and> spawns pre = 0 \<and> fetches pre = 0"
      using attempt(6) by (auto simp: callback_effects_counts)
    have t: "trace s' = trace s @ pre @
           [TokenFetch,
            OnDone (Status INTERNAL ''Missing access token for service control call'') []]"
      using attempt(1,2) assms(4) by (simp add: attempt_effects_def missing_token_status_def)
    have c: "fetches (trace s') = Suc (fetches (trace s)) \<and> dones (trace s') = 1 \<and>
         spawns (trace s') = spawns (trace s) \<and> sends (trace s') = sends (trace s)"
      using p attempt(5) by (simp add: t)
    have o: "outstanding (trace s') = 0"
      using step_outcome [OF i assms(2), of cfg] st k assms(4) attempt(6) by auto
    have rq: "request s' = None"
      using \<open>call_inv r (es @ [e]) s'\<close> o by (cases "request s'") (simp_all add: call_inv_def)
    from st p t c attempt(5) rq show ?thesis by blast
  next
    case (finish h)
    with k show ?thesis by simp
  next
    case cancel
    with k show ?thesis by simp
  qed
qed

theorem empty_token_fails_at_once_witness:
  "(run example_no_token [] (create 3) = Some (create 3) \<and>
    enabled (create 3) Call \<and>
    token_fn example_no_token (fetches (trace (create 3))) = [] \<and>
    (\<exists>s'. step example_no_token Call (create 3) = Some s' \<and>
       trace s' = [TokenFetch,
         OnDone (Status INTERNAL ''Missing access token for service control call'') []] \<and>
       dones (trace s') = 1 \<and> spawns (trace s') = 0 \<and> sends (trace s') = 0)) \<and>
   (\<exists>s. run example_token_once [Call] (create 2) = Some s \<and>
      enabled s (Failure Reset) \<and> non_success (Failure Reset) \<and>
      \<not> (400 \<le> unat (observed_status (Failure Reset)) \<and>
         unat (observed_status (Failure Reset)) < 500) \<and>
      0 < unat (retries s) \<and>
      token_fn example_token_once (fetches (trace s)) = [] \<and>
      (\<exists>s' pre. step example_token_once (Failure Reset) s = Some s' \<and>
         trace s' = trace s @ pre @ [TokenFetch,
           OnDone (Status INTERNAL ''Missing access token for service control call'') []] \<and>
         dones pre = 0 \<and> dones (trace s') = 1 \<and>
         spawns (trace s') = spawns (trace s) \<and> sends (trace s') = sends (trace s)))"
proof -
  let ?s' = "call example_no_token (create 3)"
  have h: "run example_no_token [] (create 3) = Some (create 3)" by simp
  have en: "enabled (create 3) Call" by (simp add: create_def)
  have st: "step example_no_token Call (create 3) = Some ?s'" by simp
  have tk: "token_fn example_no_token (fetches (trace (create 3))) = []"
    by (simp add: example_no_token_def)
  have t: "trace ?s' = [TokenFetch,
        OnDone (Status INTERNAL ''Missing access token for service control call'') []]"
    by (simp add: call_def makeOneCall_no_token [OF tk]) (simp add: create_def)
  have z: "spawns (trace (create 3)) = 0" "sends (trace (create 3)) = 0"
    by (simp_all add: create_def)
  from empty_token_fails_at_once [OF h en _ tk] st z
  have "dones (trace ?s') = 1 \<and> spawns (trace ?s') = 0 \<and> sends (trace ?s') = 0"
    by auto
  with st t have A: "\<exists>s'. step example_no_token Call (create 3) = Some s' \<and>
       trace s' = [TokenFetch,
         OnDone (Status INTERNAL ''Missing access token for service control call'') []] \<and>
       dones (trace s') = 1 \<and> spawns (trace s') = 0 \<and> sends (trace s') = 0"
    by blast
  let ?s = "call example_token_once (create 2)"
  have tk0: "token_fn example_token_once (fetches (trace (create 2))) \<noteq> []"
    by (simp add: example_token_once_def create_def)
  have h2: "run example_token_once [Call] (create 2) = Some ?s"
    by (simp add: create_def)
  have en2: "enabled ?s (Failure Reset)"
    by (simp add: call_def makeOneCall_token [OF tk0] span_setup_def) (simp add: create_def)
  have c2a: "non_success (Failure Reset)" by simp
  have c2b: "\<not> (400 \<le> unat (observed_status (Failure Reset)) \<and>
         unat (observed_status (Failure Reset)) < 500)" by simp
  have c2c: "0 < unat (retries ?s)"
    by (simp add: call_def makeOneCall_token [OF tk0]) (simp add: create_def)
  have tk2: "token_fn example_token_once (fetches (trace ?s)) = []"
    by (simp add: call_def makeOneCall_token [OF tk0] span_setup_def)
       (simp add: create_def example_token_once_def)
  have k2: "Failure Reset = Call \<or>
         non_success (Failure Reset) \<and>
         \<not> (400 \<le> unat (observed_status (Failure Reset)) \<and>
            unat (observed_status (Failure Reset)) < 500) \<and>
         0 < unat (retries ?s)"
    using c2a c2b c2c by blast
  from empty_token_fails_at_once [OF h2 en2 k2 tk2]
  have X: "\<exists>s' pre. step example_token_once (Failure Reset) ?s = Some s' \<and>
         trace s' = trace ?s @ pre @ [TokenFetch,
           OnDone (Status INTERNAL ''Missing access token for service control call'') []] \<and>
         dones pre = 0 \<and> dones (trace s') = 1 \<and>
         spawns (trace s') = spawns (trace ?s) \<and> sends (trace s') = sends (trace ?s)"
    by (elim exE conjE) (intro exI conjI; assumption)
  have B: "\<exists>s. run example_token_once [Call] (create 2) = Some s \<and>
      enabled s (Failure Reset) \<and> non_success (Failure Reset) \<and>
      \<not> (400 \<le> unat (observed_status (Failure Reset)) \<and>
         unat (observed_status (Failure Reset)) < 500) \<and>
      0 < unat (retries s) \<and>
      token_fn example_token_once (fetches (trace s)) = [] \<and>
      (\<exists>s' pre. step example_token_once (Failure Reset) s = Some s' \<and>
         trace s' = trace s @ pre @ [TokenFetch,
           OnDone (Status INTERNAL ''Missing access token for service control call'') []] \<and>
         dones pre = 0 \<and> dones (trace s') = 1 \<and>
         spawns (trace s') = spawns (trace s) \<and> sends (trace s') = sends (trace s))"
    by (rule exI [of _ ?s]) (intro conjI h2 en2 c2a c2b c2c tk2 X)
  from h en tk A B show ?thesis by (intro conjI)
qed

text \<open>
  The status of that report is not of an authentication class: the run of \<^verbatim>\<open>call()\<close>
  with a token function that returns the empty string reports once, with the code
  \<open>INTERNAL\<close>, and with no status whose code is \<open>UNAUTHENTICATED\<close> or
  \<open>PERMISSION_DENIED\<close>.
\<close>

theorem empty_token_status_counterexample:
  "\<exists>s. run example_no_token [Call] (create 3) = Some s \<and> dones (trace s) = 1 \<and>
     OnDone (Status INTERNAL ''Missing access token for service control call'') []
       \<in> set (trace s) \<and>
     \<not> (\<exists>st body. OnDone st body \<in> set (trace s) \<and>
          (error_code st = UNAUTHENTICATED \<or> error_code st = PERMISSION_DENIED))"
proof -
  have tk: "token_fn example_no_token (fetches (trace (create 3))) = []"
    by (simp add: example_no_token_def)
  have t: "trace (call example_no_token (create 3)) = [TokenFetch,
        OnDone (Status INTERNAL ''Missing access token for service control call'') []]"
    by (simp add: call_def makeOneCall_no_token [OF tk]) (simp add: create_def)
  have r: "run example_no_token [Call] (create 3) = Some (call example_no_token (create 3))"
    by (simp add: create_def)
  show ?thesis
    by (rule exI [of _ "call example_no_token (create 3)"]) (simp add: r t del: run.simps)
qed

subsection \<open>A failure notification\<close>

text \<open>
  C4.  When the transport reports a failure for the outstanding request of a reachable
  state, the callback returns; the span of the attempt gets the tag \<open>Error\<close>, "the
  stream has been reset" for the reason \<open>Reset\<close> and "unknown network error" for any
  other reason, and is finished.  The status handed to the retry decision is 0, which is
  outside \<open>[400, 500)\<close>: whenever the budget is positive a retry starts (one is taken
  off the budget, the token is fetched and, unless it is empty, the next span and request
  follow).  With the budget at 0 the caller is told \<open>INTERNAL\<close>, "Failed to call service
  control", with an empty body, and the object is handed to the deferred deletion.
\<close>

theorem failure_handling:
  assumes "run cfg es (create r) = Some s" and "enabled s (Failure reason)"
  shows "\<exists>h s' rest. request s = Some h \<and> request_span s = Some h \<and>
    step cfg (Failure reason) s = Some s' \<and>
    trace s' = trace s @
      [Delivered,
       SetTag h Error (Text (if reason = Reset then ''the stream has been reset''
                             else ''unknown network error'')),
       FinishSpan h] @ rest \<and>
    observed_status (Failure reason) = 0 \<and>
    (if 0 < unat (retries s) then
       unat (retries s') + 1 = unat (retries s) \<and>
       rest = TokenFetch #
         (if token_fn cfg (Suc h) = [] then
            [OnDone (Status INTERNAL ''Missing access token for service control call'') []]
          else span_setup cfg (Suc h) (span_name cfg (Suc (Suc h))) @
               [Send (Suc h) (cluster cfg) (prepareHeaders cfg (token_fn cfg (Suc h)))
                  (timeout_ms cfg)])
     else
       rest = [OnDone (Status INTERNAL ''Failed to call service control'') [],
               DeferredDelete])"
proof -
  have i: "call_inv r es s" using assms(1) by (rule inv_run)
  have rt: "reason_text reason = (if reason = Reset then ''the stream has been reset''
                             else ''unknown network error'')"
    by (cases reason) (simp_all add: reason_text_def)
  from i assms(2) have "Failure reason \<noteq> Call" "Failure reason \<noteq> Cancel" by simp_all
  with i assms(2) show ?thesis
  proof (cases rule: callback_step [where cfg = cfg])
    case (cb s' h)
    show ?thesis
    proof (cases "retried s (Failure reason)")
      case True
      then have nz: "retries s \<noteq> 0" by simp
      from cb(5) [OF True] have
        t: "trace s' = trace s @ callback_effects (Failure reason) h @ TokenFetch #
         (if token_fn cfg (Suc h) = [] then [OnDone missing_token_status []]
          else span_setup cfg (Suc h) (span_name cfg (Suc (Suc h))) @
               [Send (Suc h) (cluster cfg) (prepareHeaders cfg (token_fn cfg (Suc h)))
                  (timeout_ms cfg)])"
        and r: "retries s' = retries s - 1"
        by simp_all
      have u: "unat (retries s') + 1 = unat (retries s)"
        using unat_pred [OF nz] by (simp add: r)
      from nz have c: "0 < unat (retries s)"
        by (simp add: unat_gt_0)
      show ?thesis
        apply (rule exI [of _ h], rule exI [of _ s'])
        apply (rule exI [of _ "TokenFetch #
         (if token_fn cfg (Suc h) = [] then [OnDone missing_token_status []]
          else span_setup cfg (Suc h) (span_name cfg (Suc (Suc h))) @
               [Send (Suc h) (cluster cfg) (prepareHeaders cfg (token_fn cfg (Suc h)))
                  (timeout_ms cfg)])"])
        using cb(1,2,3) t u c by (simp add: missing_token_status_def rt)
    next
      case False
      from cb(6) [OF False] have
        t: "trace s' = trace s @ callback_effects (Failure reason) h @
              [final_done (Failure reason), DeferredDelete]"
        by simp
      from False have c: "\<not> 0 < unat (retries s)"
        by (simp add: unat_gt_0)
      show ?thesis
        apply (rule exI [of _ h], rule exI [of _ s'])
        apply (rule exI [of _ "[final_done (Failure reason), DeferredDelete]"])
        using cb(1,2,3) t c
        by (simp add: failed_status_def rt)
    qed
  qed
qed

theorem failure_handling_witness:
  "\<exists>s. run example_config [Call] (create 0) = Some s \<and>
     enabled s (Failure Reset) \<and>
     (\<exists>s'. step example_config (Failure Reset) s = Some s' \<and>
        trace s' = trace s @
          [Delivered, SetTag 0 Error (Text ''the stream has been reset''), FinishSpan 0,
           OnDone (Status INTERNAL ''Failed to call service control'') [], DeferredDelete])"
proof -
  let ?s = "call example_config (create 0)"
  let ?e = "Failure Reset"
  have h: "run example_config [Call] (create 0) = Some ?s"
    by (simp add: create_def)
  have en: "enabled ?s ?e"
    by (simp add: call_def makeOneCall_token example_config_def create_def span_setup_def)
  have sp: "request_span ?s = Some 0" "retries ?s = 0"
    by (simp_all add: call_def makeOneCall_token example_config_def create_def)
  from failure_handling [OF h en] sp
  have "\<exists>s'. step example_config ?e ?s = Some s' \<and>
        trace s' = trace ?s @
          [Delivered, SetTag 0 Error (Text ''the stream has been reset''), FinishSpan 0,
           OnDone (Status INTERNAL ''Failed to call service control'') [], DeferredDelete]"
    by auto
  with h en show ?thesis by blast
qed

subsection \<open>A response\<close>

text \<open>
  C5.  When a response arrives for the outstanding request of a reachable state, the
  callback returns; the span of the attempt gets the tag \<open>HttpStatusCode\<close> with the
  decimal status of the response and is finished.  Then: with status 200 the caller is
  told \<open>OK\<close> with the body of the response (empty when the response has none) and the
  object is handed to the deferred deletion; with any other status, 2xx and 3xx
  included, either a retry starts (status outside \<open>[400, 500)\<close> and budget left: one
  is taken off the budget, the token is fetched and, unless it is empty, the next span
  and request follow), or the caller is told \<open>INTERNAL\<close>, "Failed to call service
  control", with the body of the response, and the object is handed to the deferred
  deletion.
\<close>

theorem response_handling:
  assumes "run cfg es (create r) = Some s" and "enabled s (Success resp)"
  shows "\<exists>h s' rest. request s = Some h \<and> request_span s = Some h \<and>
    step cfg (Success resp) s = Some s' \<and>
    trace s' = trace s @
      [Delivered, SetTag h HttpStatusCode (Text (to_string (unat (status_code resp)))),
       FinishSpan h] @ rest \<and>
    (if status_code resp = 200 then
       rest = [OnDone (Status OK []) (case resp_body resp of None \<Rightarrow> [] | Some b \<Rightarrow> b),
               DeferredDelete]
     else if \<not> (400 \<le> unat (status_code resp) \<and> unat (status_code resp) < 500) \<and>
             0 < unat (retries s) then
       unat (retries s') + 1 = unat (retries s) \<and>
       rest = TokenFetch #
         (if token_fn cfg (Suc h) = [] then
            [OnDone (Status INTERNAL ''Missing access token for service control call'') []]
          else span_setup cfg (Suc h) (span_name cfg (Suc (Suc h))) @
               [Send (Suc h) (cluster cfg) (prepareHeaders cfg (token_fn cfg (Suc h)))
                  (timeout_ms cfg)])
     else
       rest = [OnDone (Status INTERNAL ''Failed to call service control'')
                 (case resp_body resp of None \<Rightarrow> [] | Some b \<Rightarrow> b),
               DeferredDelete])"
proof -
  have i: "call_inv r es s" using assms(1) by (rule inv_run)
  from i assms(2) have "Success resp \<noteq> Call" "Success resp \<noteq> Cancel" by simp_all
  with i assms(2) show ?thesis
  proof (cases rule: callback_step [where cfg = cfg])
    case (cb s' h)
    show ?thesis
    proof (cases "retried s (Success resp)")
      case True
      then have nz: "retries s \<noteq> 0" by simp
      from cb(5) [OF True] have
        t: "trace s' = trace s @ callback_effects (Success resp) h @ TokenFetch #
         (if token_fn cfg (Suc h) = [] then [OnDone missing_token_status []]
          else span_setup cfg (Suc h) (span_name cfg (Suc (Suc h))) @
               [Send (Suc h) (cluster cfg) (prepareHeaders cfg (token_fn cfg (Suc h)))
                  (timeout_ms cfg)])"
        and r: "retries s' = retries s - 1"
        by simp_all
      have u: "unat (retries s') + 1 = unat (retries s)"
        using unat_pred [OF nz] by (simp add: r)
      from True have c: "status_code resp \<noteq> 200"
        "\<not> (400 \<le> unat (status_code resp) \<and> unat (status_code resp) < 500) \<and>
         0 < unat (retries s)"
        by (simp_all add: band_unat unat_gt_0)
      show ?thesis
        apply (rule exI [of _ h], rule exI [of _ s'])
        apply (rule exI [of _ "TokenFetch #
         (if token_fn cfg (Suc h) = [] then [OnDone missing_token_status []]
          else span_setup cfg (Suc h) (span_name cfg (Suc (Suc h))) @
               [Send (Suc h) (cluster cfg) (prepareHeaders cfg (token_fn cfg (Suc h)))
                  (timeout_ms cfg)])"])
        using cb(1,2,3) t u c by (simp add: missing_token_status_def)
    next
      case False
      from cb(6) [OF False] have
        t: "trace s' = trace s @ callback_effects (Success resp) h @
              [final_done (Success resp), DeferredDelete]"
        by simp
      from False have c: "status_code resp \<noteq> 200 \<Longrightarrow>
        \<not> (\<not> (400 \<le> unat (status_code resp) \<and> unat (status_code resp) < 500) \<and>
         0 < unat (retries s))"
        by (simp add: band_unat unat_gt_0)
      show ?thesis
        apply (rule exI [of _ h], rule exI [of _ s'])
        apply (rule exI [of _ "[final_done (Success resp), DeferredDelete]"])
        using cb(1,2,3) t c
        by (cases "status_code resp = 200")
           (simp_all add: failed_status_def Status_OK_def body_of_def)
    qed
  qed
qed

theorem response_handling_witness:
  "\<exists>s. run example_config [Call] (create 3) = Some s \<and>
     enabled s (Success \<lparr>status_code = 200, resp_body = Some ''OK''\<rparr>) \<and>
     (\<exists>s'. step example_config (Success \<lparr>status_code = 200, resp_body = Some ''OK''\<rparr>) s = Some s' \<and>
        trace s' = trace s @
          [Delivered, SetTag 0 HttpStatusCode (Text ''200''), FinishSpan 0,
           OnDone (Status OK []) ''OK'', DeferredDelete])"
proof -
  let ?s = "call example_config (create 3)"
  let ?e = "Success \<lparr>status_code = 200, resp_body = Some ''OK''\<rparr>"
  have h: "run example_config [Call] (create 3) = Some ?s"
    by (simp add: create_def)
  have en: "enabled ?s ?e"
    by (simp add: call_def makeOneCall_token example_config_def create_def span_setup_def)
  have sp: "request_span ?s = Some 0"
    by (simp add: call_def makeOneCall_token example_config_def create_def)
  have ts: "to_string 200 = ''200''"
    by (simp add: to_string.simps digit_char_def)
  from response_handling [OF h en] sp ts
  have "\<exists>s'. step example_config ?e ?s = Some s' \<and>
        trace s' = trace ?s @
          [Delivered, SetTag 0 HttpStatusCode (Text ''200''), FinishSpan 0,
           OnDone (Status OK []) ''OK'', DeferredDelete]"
    by auto
  with h en show ?thesis by blast
qed

subsection \<open>The span of an attempt\<close>

text \<open>
  C6.  Read, in the trace of a reachable state, only the token fetches, the spawns of
  spans and the tags set when a span is made.  Then the trace is, for the attempts
  \<open>n = 1, 2, ...\<close> in turn, the token fetch of attempt \<open>n\<close> followed by the spawn of a
  child span whose name is the operation name when \<open>n = 1\<close> and the operation name
  followed by " - Retry " and the decimal \<open>n - 1\<close> when \<open>n > 1\<close>, and by its four tags:
  the component, the upstream cluster, the full request uri and the method POST.
  Only the last attempt may be a token fetch alone; that is the attempt that met an empty
  token (C3).  The attempt counter is a 32-bit integer: the names are right for every
  attempt a call can make, also for the last one of a call with \<open>2^32 - 1\<close> retries,
  where the counter has wrapped to 0.
\<close>

theorem span_naming:
  assumes "run cfg es (create r) = Some s"
  shows "filter span_creation (trace s) =
    concat (map (\<lambda>n. TokenFetch # span_setup cfg (n - 1) (span_name cfg n))
              [1..<Suc (spawns (trace s))]) @
    (if fetches (trace s) = spawns (trace s) then [] else [TokenFetch])"
  using assms
proof (induction rule: run_induct)
  case init
  then show ?case by (simp add: create_def)
next
  case (step es s e s')
  let ?block = "\<lambda>n. TokenFetch # span_setup cfg (n - 1) (span_name cfg n)"
  from step.hyps(2,3,4) show ?case
  proof (cases rule: step_trace)
    case (attempt pre n)
    from attempt(6) have p: "filter span_creation pre = []" "fetches pre = 0" "spawns pre = 0"
      by (auto simp: callback_effects_counts)
    from step.IH attempt(2,4)
    have ih: "filter span_creation (trace s) = concat (map ?block [1..<Suc n])"
      by simp
    show ?thesis
    proof (cases "token_fn cfg n = []")
      case True
      then show ?thesis
        using attempt(1,2,4) p ih
        by (simp add: span_creation_attempt_effects attempt_effects_counts)
    next
      case False
      then show ?thesis
        using attempt(1,2,4) p ih
        by (simp add: span_creation_attempt_effects attempt_effects_counts)
    qed
  next
    case (finish h)
    then show ?thesis
      using step.IH by (simp add: callback_effects_counts)
  next
    case cancel
    then show ?thesis
      using step.IH by (simp split: option.splits)
  qed
qed

theorem span_naming_witness:
  "\<exists>s. run example_config
          [Call, Success \<lparr>status_code = 503, resp_body = None\<rparr>,
           Success \<lparr>status_code = 503, resp_body = None\<rparr>] (create 2) = Some s \<and>
     filter span_creation (trace s) =
       concat (map (\<lambda>n. TokenFetch # span_setup example_config (n - 1) (span_name example_config n))
                 [1, 2, 3]) \<and>
     span_name example_config 1 = ''op'' \<and>
     span_name example_config 2 = ''op - Retry 1'' \<and>
     span_name example_config 3 = ''op - Retry 2''"
proof -
  let ?es = "[Call, Success \<lparr>status_code = 503, resp_body = None\<rparr>,
           Success \<lparr>status_code = 503, resp_body = None\<rparr>]"
  have "\<exists>s. run example_config ?es (create 2) = Some s \<and>
      spawns (trace s) = 3 \<and> fetches (trace s) = 3"
    by (simp add: call_def makeOneCall_def example_config_def create_def
        onSuccess_def attemptRetry_def emit_def deferredDelete_def reset_def Let_def)
  then obtain s where s: "run example_config ?es (create 2) = Some s"
    "spawns (trace s) = 3" "fetches (trace s) = 3"
    by blast
  have u: "[1..<Suc 3] = [1, 2, 3]" by (simp add: upt_rec)
  from span_naming [OF s(1)] s(2,3) u
  have "filter span_creation (trace s) =
       concat (map (\<lambda>n. TokenFetch # span_setup example_config (n - 1) (span_name example_config n))
                 [1, 2, 3])"
    by simp
  moreover have "span_name example_config 1 = ''op'' \<and>
     span_name example_config 2 = ''op - Retry 1'' \<and>
     span_name example_config 3 = ''op - Retry 2''"
    by (simp add: span_name_def example_config_def to_string.simps digit_char_def)
  ultimately show ?thesis using s(1) by blast
qed

subsection \<open>Cancellation\<close>

text \<open>
  C7.  \<^verbatim>\<open>cancel()\<close>, in whatever state it is invoked: when \<^verbatim>\<open>request_span_\<close> is set, that
  span is tagged \<open>Error = Canceled\<close> and finished; when \<^verbatim>\<open>request_\<close> is set, the
  transport's cancel is invoked on that handle, once, and the handle is cleared; the
  deferred deletion is scheduled last, in every case, also when neither is set; and no
  invocation of the completion callback is added.
\<close>

theorem cancel_effects:
  "trace (cancel s) = trace s @
     (case request_span s of None \<Rightarrow> []
      | Some sid \<Rightarrow> [SetTag sid Error Canceled, FinishSpan sid]) @
     (case request s of None \<Rightarrow> [] | Some h \<Rightarrow> [CancelRequest h]) @
     [DeferredDelete] \<and>
   request (cancel s) = None \<and>
   dones (trace (cancel s)) = dones (trace s)"
  by (simp add: cancel_eq split: option.splits)

theorem cancel_effects_witness:
  "trace (cancel (call example_config (create 2))) =
     trace (call example_config (create 2)) @
       [SetTag 0 Error Canceled, FinishSpan 0, CancelRequest 0, DeferredDelete] \<and>
   request (cancel (call example_config (create 2))) = None \<and>
   dones (trace (cancel (call example_config (create 2)))) = 0 \<and>
   trace (cancel (create 2)) = [DeferredDelete]"
  using cancel_effects [of "call example_config (create 2)"] cancel_effects [of "create 2"]
  by (simp add: call_def makeOneCall_token example_config_def create_def span_setup_def)

subsection \<open>One attempt at a time, and the budget\<close>

text \<open>
  C8.  In every reachable state, at every instant of its trace (that is, for every
  prefix), the number of requests the transport still owes an answer is 0 or 1 and the
  number of spans spawned and not finished is 0 or 1; at the instant a span is spawned or
  a request is sent no earlier request is outstanding, and at the instant a span is
  spawned no earlier span is open.  The budget never exceeds the configured number, and
  a step either leaves it as it is or finds it positive and takes exactly one off, so the
  unsigned counter never wraps below 0.

  The handle \<^verbatim>\<open>request_\<close> of the object agrees with the transport: it is null exactly
  when nothing is outstanding and no span is open, and otherwise it is the handle of the
  last request sent, the one outstanding, whose span is the one open.  And every event
  that can happen ends, in one of three ways.  \<^verbatim>\<open>call()\<close> finds the handle null and is
  \<^verbatim>\<open>makeOneCall\<close> on that state.  A callback that retries (outcome other than success,
  status outside \<open>[400, 500)\<close>, budget left) is \<^verbatim>\<open>makeOneCall\<close> on the state in which
  the callback has been recorded, the span of the previous attempt finished, one taken
  off the budget and the handle set to null; there nothing is outstanding and no span
  is open.  Every other step starts no attempt, sends nothing and leaves the handle
  null.
\<close>

theorem attempts_never_overlap:
  assumes "run cfg es (create r) = Some s"
  shows "(\<forall>n. 0 \<le> outstanding (take n (trace s)) \<and> outstanding (take n (trace s)) \<le> 1 \<and>
          0 \<le> open_spans (take n (trace s)) \<and> open_spans (take n (trace s)) \<le> 1) \<and>
    (\<forall>n < length (trace s). is_SpawnChild (trace s ! n) \<or> is_Send (trace s ! n) \<longrightarrow>
          outstanding (take n (trace s)) = 0) \<and>
    (\<forall>n < length (trace s). is_SpawnChild (trace s ! n) \<longrightarrow>
          open_spans (take n (trace s)) = 0) \<and>
    unat (retries s) \<le> unat r \<and>
    (\<forall>e s'. enabled s e \<and> step cfg e s = Some s' \<longrightarrow>
          retries s' = retries s \<or>
          0 < unat (retries s) \<and> unat (retries s') + 1 = unat (retries s)) \<and>
    (case request s of
       None \<Rightarrow> outstanding (trace s) = 0 \<and> open_spans (trace s) = 0
     | Some h \<Rightarrow> outstanding (trace s) = 1 \<and> open_spans (trace s) = 1 \<and>
         Suc h = sends (trace s) \<and> request_span s = Some h) \<and>
    (\<forall>e. enabled s e \<longrightarrow>
       (\<exists>s'. step cfg e s = Some s' \<and>
          (e = Call \<longrightarrow> request s = None \<and> s' = makeOneCall cfg s) \<and>
          (non_success e \<and>
           \<not> (400 \<le> unat (observed_status e) \<and> unat (observed_status e) < 500) \<and>
           0 < unat (retries s) \<longrightarrow>
             (\<exists>h. request s = Some h \<and>
                s' = makeOneCall cfg (s\<lparr>trace := trace s @ callback_effects e h,
                       retries := retries s - 1, request := None\<rparr>) \<and>
                outstanding (trace s @ callback_effects e h) = 0 \<and>
                open_spans (trace s @ callback_effects e h) = 0)) \<and>
          (e \<noteq> Call \<and>
           \<not> (non_success e \<and>
              \<not> (400 \<le> unat (observed_status e) \<and> unat (observed_status e) < 500) \<and>
              0 < unat (retries s)) \<longrightarrow>
             fetches (trace s') = fetches (trace s) \<and> sends (trace s') = sends (trace s) \<and>
             request s' = None)))"
proof -
  have i: "call_inv r es s" using assms by (rule inv_run)
  have sq: "sequential (take n (trace s))" for n
    using sequential_run [OF assms] by (simp add: always_def)
  have 1: "0 \<le> outstanding (take n (trace s)) \<and> outstanding (take n (trace s)) \<le> 1 \<and>
          0 \<le> open_spans (take n (trace s)) \<and> open_spans (take n (trace s)) \<le> 1" for n
    using sq [of n] by (simp add: sequential_def)
  have tk: "take (Suc n) (trace s) = take n (trace s) @ [trace s ! n]"
    if "n < length (trace s)" for n
    using that by (simp add: take_Suc_conv_app_nth)
  have 2: "outstanding (take n (trace s)) = 0"
    if "n < length (trace s)" "is_SpawnChild (trace s ! n) \<or> is_Send (trace s ! n)" for n
  proof -
    from that(2) show ?thesis
    proof
      assume c: "is_SpawnChild (trace s ! n)"
      then have "\<not> is_Send (trace s ! n)" "\<not> is_settled (trace s ! n)"
        by (cases "trace s ! n"; simp)+
      with sq [of "Suc n"] c show ?thesis
        by (simp add: sequential_def tk [OF that(1)])
    next
      assume c: "is_Send (trace s ! n)"
      with sq [of "Suc n"] 1 [of n] show ?thesis
        by (simp add: sequential_def tk [OF that(1)])
    qed
  qed
  have 3: "open_spans (take n (trace s)) = 0"
    if "n < length (trace s)" "is_SpawnChild (trace s ! n)" for n
    using sq [of "Suc n"] 1 [of n] that(2)
    by (simp add: sequential_def tk [OF that(1)])
  have 4: "retries s' = retries s \<or>
          0 < unat (retries s) \<and> unat (retries s') + 1 = unat (retries s)"
    if "enabled s e \<and> step cfg e s = Some s'" for e s'
    using retries_step [OF i, of e cfg s'] that by simp
  have b: "open_spans (trace s) = outstanding (trace s)"
    using sequential_run [OF assms] by simp
  have 5: "\<exists>s'. step cfg e s = Some s' \<and>
          (e = Call \<longrightarrow> request s = None \<and> s' = makeOneCall cfg s) \<and>
          (non_success e \<and>
           \<not> (400 \<le> unat (observed_status e) \<and> unat (observed_status e) < 500) \<and>
           0 < unat (retries s) \<longrightarrow>
             (\<exists>h. request s = Some h \<and>
                s' = makeOneCall cfg (s\<lparr>trace := trace s @ callback_effects e h,
                       retries := retries s - 1, request := None\<rparr>) \<and>
                outstanding (trace s @ callback_effects e h) = 0 \<and>
                open_spans (trace s @ callback_effects e h) = 0)) \<and>
          (e \<noteq> Call \<and>
           \<not> (non_success e \<and>
              \<not> (400 \<le> unat (observed_status e) \<and> unat (observed_status e) < 500) \<and>
              0 < unat (retries s)) \<longrightarrow>
             fetches (trace s') = fetches (trace s) \<and> sends (trace s') = sends (trace s) \<and>
             request s' = None)"
    if "enabled s e" for e
    using attempt_entry [OF i b that, of cfg] by (simp only: retried_eq)
  show ?thesis
  proof (intro conjI)
    show "\<forall>n. 0 \<le> outstanding (take n (trace s)) \<and> outstanding (take n (trace s)) \<le> 1 \<and>
          0 \<le> open_spans (take n (trace s)) \<and> open_spans (take n (trace s)) \<le> 1"
      by (intro allI) (rule 1)
    show "\<forall>n < length (trace s). is_SpawnChild (trace s ! n) \<or> is_Send (trace s ! n) \<longrightarrow>
          outstanding (take n (trace s)) = 0"
      by (intro allI impI) (rule 2)
    show "\<forall>n < length (trace s). is_SpawnChild (trace s ! n) \<longrightarrow>
          open_spans (take n (trace s)) = 0"
      by (intro allI impI) (rule 3)
    show "unat (retries s) \<le> unat r" by (rule retries_bound [OF assms])
    show "\<forall>e s'. enabled s e \<and> step cfg e s = Some s' \<longrightarrow>
          retries s' = retries s \<or>
          0 < unat (retries s) \<and> unat (retries s') + 1 = unat (retries s)"
      by (intro allI impI) (rule 4)
    show "case request s of
       None \<Rightarrow> outstanding (trace s) = 0 \<and> open_spans (trace s) = 0
     | Some h \<Rightarrow> outstanding (trace s) = 1 \<and> open_spans (trace s) = 1 \<and>
         Suc h = sends (trace s) \<and> request_span s = Some h"
      by (rule handle_agrees [OF assms])
    show "\<forall>e. enabled s e \<longrightarrow>
       (\<exists>s'. step cfg e s = Some s' \<and>
          (e = Call \<longrightarrow> request s = None \<and> s' = makeOneCall cfg s) \<and>
          (non_success e \<and>
           \<not> (400 \<le> unat (observed_status e) \<and> unat (observed_status e) < 500) \<and>
           0 < unat (retries s) \<longrightarrow>
             (\<exists>h. request s = Some h \<and>
                s' = makeOneCall cfg (s\<lparr>trace := trace s @ callback_effects e h,
                       retries := retries s - 1, request := None\<rparr>) \<and>
                outstanding (trace s @ callback_effects e h) = 0 \<and>
                open_spans (trace s @ callback_effects e h) = 0)) \<and>
          (e \<noteq> Call \<and>
           \<not> (non_success e \<and>
              \<not> (400 \<le> unat (observed_status e) \<and> unat (observed_status e) < 500) \<and>
              0 < unat (retries s)) \<longrightarrow>
             fetches (trace s') = fetches (trace s) \<and> sends (trace s') = sends (trace s) \<and>
             request s' = None))"
      by (intro allI impI) (rule 5)
  qed
qed

theorem attempts_never_overlap_witness:
  "(\<exists>s. run example_config [Call, Failure Reset] (create 1) = Some s \<and>
     (\<forall>n. 0 \<le> outstanding (take n (trace s)) \<and> outstanding (take n (trace s)) \<le> 1 \<and>
          0 \<le> open_spans (take n (trace s)) \<and> open_spans (take n (trace s)) \<le> 1) \<and>
     11 < length (trace s) \<and> is_SpawnChild (trace s ! 11) \<and>
     outstanding (take 11 (trace s)) = 0 \<and> open_spans (take 11 (trace s)) = 0 \<and>
     unat (retries s) \<le> unat (1 :: 32 word) \<and>
     request s = Some 1 \<and> outstanding (trace s) = 1 \<and> open_spans (trace s) = 1 \<and>
     enabled s (Failure Reset) \<and> unat (retries s) = 0 \<and>
     (\<exists>s'. step example_config (Failure Reset) s = Some s' \<and>
        (retries s' = retries s \<or>
         0 < unat (retries s) \<and> unat (retries s') + 1 = unat (retries s)) \<and>
        sends (trace s') = sends (trace s) \<and> request s' = None)) \<and>
   (\<exists>s. run example_config [Call] (create 1) = Some s \<and>
     enabled s (Failure Reset) \<and> non_success (Failure Reset) \<and>
     \<not> (400 \<le> unat (observed_status (Failure Reset)) \<and>
        unat (observed_status (Failure Reset)) < 500) \<and>
     0 < unat (retries s) \<and>
     (\<exists>s' h. step example_config (Failure Reset) s = Some s' \<and> request s = Some h \<and>
        s' = makeOneCall example_config
               (s\<lparr>trace := trace s @ callback_effects (Failure Reset) h,
                  retries := retries s - 1, request := None\<rparr>) \<and>
        outstanding (trace s @ callback_effects (Failure Reset) h) = 0 \<and>
        open_spans (trace s @ callback_effects (Failure Reset) h) = 0)) \<and>
   (run example_config [] (create 1) = Some (create 1) \<and> enabled (create 1) Call \<and>
     request (create 1) = None \<and>
     step example_config Call (create 1) = Some (makeOneCall example_config (create 1)))"
proof -
  have "\<exists>s. run example_config [Call, Failure Reset] (create 1) = Some s \<and>
      11 < length (trace s) \<and> is_SpawnChild (trace s ! 11) \<and> enabled s (Failure Reset) \<and>
      request s = Some 1 \<and> unat (retries s) = 0"
    by (simp add: call_def makeOneCall_def example_config_def create_def
        onFailure_def attemptRetry_def emit_def deferredDelete_def reset_def Let_def)
  then obtain s where s: "run example_config [Call, Failure Reset] (create 1) = Some s"
    and n: "11 < length (trace s)" "is_SpawnChild (trace s ! 11)"
    and e: "enabled s (Failure Reset)"
    and q: "request s = Some 1" "unat (retries s) = 0"
    by blast
  note t = attempts_never_overlap [OF s]
  note t1 = t [THEN conjunct1]
  note t2 = t [THEN conjunct2, THEN conjunct1]
  note t3 = t [THEN conjunct2, THEN conjunct2, THEN conjunct1]
  note t4 = t [THEN conjunct2, THEN conjunct2, THEN conjunct2, THEN conjunct1]
  note t5 = t [THEN conjunct2, THEN conjunct2, THEN conjunct2, THEN conjunct2, THEN conjunct1]
  note t6 = t [THEN conjunct2, THEN conjunct2, THEN conjunct2, THEN conjunct2, THEN conjunct2,
    THEN conjunct1]
  note t7 = t [THEN conjunct2, THEN conjunct2, THEN conjunct2, THEN conjunct2, THEN conjunct2,
    THEN conjunct2]
  have 2: "outstanding (take 11 (trace s)) = 0" "open_spans (take 11 (trace s)) = 0"
    using t2 [rule_format, OF n(1)] t3 [rule_format, OF n] n(2) by simp_all
  have 4: "outstanding (trace s) = 1" "open_spans (trace s) = 1"
    using t6 q(1) by simp_all
  from t7 [rule_format, OF e] obtain s' where
    st: "step example_config (Failure Reset) s = Some s'" and
    i3: "Failure Reset \<noteq> Call \<and>
           \<not> (non_success (Failure Reset) \<and>
              \<not> (400 \<le> unat (observed_status (Failure Reset)) \<and>
                 unat (observed_status (Failure Reset)) < 500) \<and>
              0 < unat (retries s)) \<longrightarrow>
             fetches (trace s') = fetches (trace s) \<and> sends (trace s') = sends (trace s) \<and>
             request s' = None"
    by (elim exE conjE) (rule that)
  from i3 q(2) have o: "sends (trace s') = sends (trace s)" "request s' = None"
    by simp_all
  have rr: "retries s' = retries s \<or>
         0 < unat (retries s) \<and> unat (retries s') + 1 = unat (retries s)"
    by (rule t5 [rule_format, OF conjI [OF e st]])
  have 5: "\<exists>s'. step example_config (Failure Reset) s = Some s' \<and>
        (retries s' = retries s \<or>
         0 < unat (retries s) \<and> unat (retries s') + 1 = unat (retries s)) \<and>
        sends (trace s') = sends (trace s) \<and> request s' = None"
    by (rule exI [of _ s']) (intro conjI st rr o)
  have A: "\<exists>s. run example_config [Call, Failure Reset] (create 1) = Some s \<and>
     (\<forall>n. 0 \<le> outstanding (take n (trace s)) \<and> outstanding (take n (trace s)) \<le> 1 \<and>
          0 \<le> open_spans (take n (trace s)) \<and> open_spans (take n (trace s)) \<le> 1) \<and>
     11 < length (trace s) \<and> is_SpawnChild (trace s ! 11) \<and>
     outstanding (take 11 (trace s)) = 0 \<and> open_spans (take 11 (trace s)) = 0 \<and>
     unat (retries s) \<le> unat (1 :: 32 word) \<and>
     request s = Some 1 \<and> outstanding (trace s) = 1 \<and> open_spans (trace s) = 1 \<and>
     enabled s (Failure Reset) \<and> unat (retries s) = 0 \<and>
     (\<exists>s'. step example_config (Failure Reset) s = Some s' \<and>
        (retries s' = retries s \<or>
         0 < unat (retries s) \<and> unat (retries s') + 1 = unat (retries s)) \<and>
        sends (trace s') = sends (trace s) \<and> request s' = None)"
    by (rule exI [of _ s]) (intro conjI s t1 n 2 t4 q 4 e 5)
  let ?u = "call example_config (create 1)"
  have hu: "run example_config [Call] (create 1) = Some ?u"
    by (simp add: create_def)
  have eu: "enabled ?u (Failure Reset)"
    by (simp add: call_def makeOneCall_token example_config_def create_def span_setup_def)
  have cu: "non_success (Failure Reset)"
    "\<not> (400 \<le> unat (observed_status (Failure Reset)) \<and>
        unat (observed_status (Failure Reset)) < 500)"
    "0 < unat (retries ?u)"
    by (simp_all add: call_def makeOneCall_token example_config_def create_def)
  note u7 = attempts_never_overlap [OF hu, THEN conjunct2, THEN conjunct2, THEN conjunct2,
    THEN conjunct2, THEN conjunct2, THEN conjunct2]
  from u7 [rule_format, OF eu] obtain u' where
    su: "step example_config (Failure Reset) ?u = Some u'" and
    i2: "non_success (Failure Reset) \<and>
           \<not> (400 \<le> unat (observed_status (Failure Reset)) \<and>
              unat (observed_status (Failure Reset)) < 500) \<and>
           0 < unat (retries ?u) \<longrightarrow>
             (\<exists>h. request ?u = Some h \<and>
                u' = makeOneCall example_config
                  (?u\<lparr>trace := trace ?u @ callback_effects (Failure Reset) h,
                       retries := retries ?u - 1, request := None\<rparr>) \<and>
                outstanding (trace ?u @ callback_effects (Failure Reset) h) = 0 \<and>
                open_spans (trace ?u @ callback_effects (Failure Reset) h) = 0)"
    by (elim exE conjE) (rule that)
  from i2 [rule_format, OF conjI [OF cu(1) conjI [OF cu(2) cu(3)]]] obtain h where
    hh: "request ?u = Some h"
      "u' = makeOneCall example_config
                  (?u\<lparr>trace := trace ?u @ callback_effects (Failure Reset) h,
                       retries := retries ?u - 1, request := None\<rparr>)"
      "outstanding (trace ?u @ callback_effects (Failure Reset) h) = 0"
      "open_spans (trace ?u @ callback_effects (Failure Reset) h) = 0"
    by (elim exE conjE) (rule that)
  have 6: "\<exists>s' h. step example_config (Failure Reset) ?u = Some s' \<and> request ?u = Some h \<and>
        s' = makeOneCall example_config
               (?u\<lparr>trace := trace ?u @ callback_effects (Failure Reset) h,
                  retries := retries ?u - 1, request := None\<rparr>) \<and>
        outstanding (trace ?u @ callback_effects (Failure Reset) h) = 0 \<and>
        open_spans (trace ?u @ callback_effects (Failure Reset) h) = 0"
    by (rule exI [of _ u'], rule exI [of _ h]) (intro conjI su hh)
  have B: "\<exists>s. run example_config [Call] (create 1) = Some s \<and>
     enabled s (Failure Reset) \<and> non_success (Failure Reset) \<and>
     \<not> (400 \<le> unat (observed_status (Failure Reset)) \<and>
        unat (observed_status (Failure Reset)) < 500) \<and>
     0 < unat (retries s) \<and>
     (\<exists>s' h. step example_config (Failure Reset) s = Some s' \<and> request s = Some h \<and>
        s' = makeOneCall example_config
               (s\<lparr>trace := trace s @ callback_effects (Failure Reset) h,
                  retries := retries s - 1, request := None\<rparr>) \<and>
        outstanding (trace s @ callback_effects (Failure Reset) h) = 0 \<and>
        open_spans (trace s @ callback_effects (Failure Reset) h) = 0)"
    by (rule exI [of _ ?u]) (intro conjI hu eu cu 6)
  have h0: "run example_config [] (create 1) = Some (create 1)" by simp
  have e0: "enabled (create 1) Call" by (simp add: create_def)
  note c7 = attempts_never_overlap [OF h0, THEN conjunct2, THEN conjunct2, THEN conjunct2,
    THEN conjunct2, THEN conjunct2, THEN conjunct2]
  from c7 [rule_format, OF e0] obtain c' where
    sc: "step example_config Call (create 1) = Some c'" and
    i1: "Call = Call \<longrightarrow> request (create 1) = None \<and>
           c' = makeOneCall example_config (create 1)"
    by (elim exE conjE) (rule that)
  from i1 have 7: "request (create 1) = None" and c: "c' = makeOneCall example_config (create 1)"
    by simp_all
  from sc c have 8:
    "step example_config Call (create 1) = Some (makeOneCall example_config (create 1))"
    by (simp del: step.simps)
  from A B h0 e0 7 8 show ?thesis by (intro conjI)
qed

subsection \<open>Disposal\<close>

text \<open>
  C9.  The claim asks for the deferred deletion on every path that ends the call.  The
  path through the empty token does not have it: \<^verbatim>\<open>makeOneCall\<close> reports to the caller and
  returns, and neither \<^verbatim>\<open>call()\<close> nor \<^verbatim>\<open>attemptRetry\<close> and the callbacks behind it call
  \<^verbatim>\<open>deferredDelete()\<close> afterwards.  Here is the run of \<^verbatim>\<open>call()\<close> with a token function
  that returns the empty string: the caller is told, nothing is handed to the dispatcher,
  and no event can follow that would do it.
\<close>

theorem missing_token_never_disposed:
  "\<exists>s. run example_no_token [Call] (create 3) = Some s \<and>
     trace s = [TokenFetch,
       OnDone (Status INTERNAL ''Missing access token for service control call'') []] \<and>
     DeferredDelete \<notin> set (trace s) \<and> (\<forall>e. \<not> enabled s e)"
proof -
  have tk: "token_fn example_no_token (fetches (trace (create 3))) = []"
    by (simp add: example_no_token_def)
  have t: "trace (call example_no_token (create 3)) = [TokenFetch,
        OnDone (Status INTERNAL ''Missing access token for service control call'') []]"
    by (simp add: call_def makeOneCall_no_token [OF tk]) (simp add: create_def)
  have r: "run example_no_token [Call] (create 3) = Some (call example_no_token (create 3))"
    by (simp add: create_def)
  have "\<not> enabled (call example_no_token (create 3)) e" for e
    by (cases e) (simp_all add: t)
  with t r show ?thesis by simp
qed

subsection \<open>The status of a failure\<close>

text \<open>
  C10.  Whatever \<^verbatim>\<open>on_done_\<close> is called with in a reachable state, its status is
  \<open>OK\<close> with an empty message, or its code is \<open>INTERNAL\<close>; in the latter case the message
  is "Missing access token for service control call", with an empty body, or "Failed to
  call service control".  And each cause of failure reaches the caller under that one
  code, in a step that returns with \<^verbatim>\<open>on_done_\<close> called exactly once in the whole
  trace: an attempt that starts with an empty token reports \<open>INTERNAL\<close>, "Missing access
  token for service control call", with an empty body; an outcome other than success
  with a status in \<open>[400, 500)\<close>, or with the budget at 0, reports \<open>INTERNAL\<close>, "Failed to
  call service control", with the body of the response, or an empty body for a failure
  notification.  \<open>OK\<close> is what a response with status 200 reports.  So the failures
  differ in message and body only, never in the code.
\<close>

theorem failures_all_internal:
  assumes "run cfg es (create r) = Some s"
  shows "(\<forall>st body. OnDone st body \<in> set (trace s) \<longrightarrow>
       st = Status OK [] \<or>
       error_code st = INTERNAL \<and>
       (error_message st = ''Missing access token for service control call'' \<and> body = [] \<or>
        error_message st = ''Failed to call service control'')) \<and>
    (\<forall>e. enabled s e \<and>
         (e = Call \<or>
          non_success e \<and>
          \<not> (400 \<le> unat (observed_status e) \<and> unat (observed_status e) < 500) \<and>
          0 < unat (retries s)) \<and>
         token_fn cfg (fetches (trace s)) = [] \<longrightarrow>
       (\<exists>s'. step cfg e s = Some s' \<and> dones (trace s') = 1 \<and>
          OnDone (Status INTERNAL ''Missing access token for service control call'') []
            \<in> set (trace s'))) \<and>
    (\<forall>e. enabled s e \<and> non_success e \<and>
         (400 \<le> unat (observed_status e) \<and> unat (observed_status e) < 500 \<or>
          unat (retries s) = 0) \<longrightarrow>
       (\<exists>s'. step cfg e s = Some s' \<and> dones (trace s') = 1 \<and>
          OnDone (Status INTERNAL ''Failed to call service control'')
            (case e of
               Success resp \<Rightarrow> (case resp_body resp of None \<Rightarrow> [] | Some b \<Rightarrow> b)
             | _ \<Rightarrow> [])
            \<in> set (trace s'))) \<and>
    (\<forall>resp. enabled s (Success resp) \<and> status_code resp = 200 \<longrightarrow>
       (\<exists>s'. step cfg (Success resp) s = Some s' \<and> dones (trace s') = 1 \<and>
          OnDone (Status OK []) (case resp_body resp of None \<Rightarrow> [] | Some b \<Rightarrow> b)
            \<in> set (trace s')))"
proof (intro conjI)
  have i: "call_inv r es s" using assms by (rule inv_run)
  have "\<forall>st body. OnDone st body \<in> set (trace s) \<longrightarrow>
      st = Status_OK \<or> st = missing_token_status \<and> body = [] \<or> st = failed_status"
    using assms(1)
  proof (induction rule: run_induct)
    case init
    then show ?case by (simp add: create_def)
  next
    case (step es s e s')
    from step.hyps(2,3,4) show ?case
    proof (cases rule: step_trace)
      case (attempt pre n)
      from attempt(6) have "\<And>st b. OnDone st b \<notin> set pre"
        by (auto simp: OnDone_callback_effects)
      with attempt(1) step.IH show ?thesis
        by (auto dest: OnDone_attempt_effects)
    next
      case (finish h)
      with step.IH show ?thesis
        by (auto simp: OnDone_callback_effects dest: OnDone_final_done)
    next
      case cancel
      with step.IH show ?thesis
        by (auto split: option.splits)
    qed
  qed
  then have every: "\<And>st body. OnDone st body \<in> set (trace s) \<Longrightarrow>
      st = Status_OK \<or> st = missing_token_status \<and> body = [] \<or> st = failed_status"
    by blast
  show "\<forall>st body. OnDone st body \<in> set (trace s) \<longrightarrow>
       st = Status OK [] \<or>
       error_code st = INTERNAL \<and>
       (error_message st = ''Missing access token for service control call'' \<and> body = [] \<or>
        error_message st = ''Failed to call service control'')"
  proof (intro allI impI)
    fix st body
    assume "OnDone st body \<in> set (trace s)"
    from every [OF this] show "st = Status OK [] \<or>
       error_code st = INTERNAL \<and>
       (error_message st = ''Missing access token for service control call'' \<and> body = [] \<or>
        error_message st = ''Failed to call service control'')"
      by (auto simp: Status_OK_def missing_token_status_def failed_status_def)
  qed
  show "\<forall>e. enabled s e \<and>
         (e = Call \<or>
          non_success e \<and>
          \<not> (400 \<le> unat (observed_status e) \<and> unat (observed_status e) < 500) \<and>
          0 < unat (retries s)) \<and>
         token_fn cfg (fetches (trace s)) = [] \<longrightarrow>
       (\<exists>s'. step cfg e s = Some s' \<and> dones (trace s') = 1 \<and>
          OnDone (Status INTERNAL ''Missing access token for service control call'') []
            \<in> set (trace s'))"
  proof (intro allI impI, elim conjE)
    fix e
    assume en: "enabled s e" and tk: "token_fn cfg (fetches (trace s)) = []"
      and k: "e = Call \<or>
          non_success e \<and>
          \<not> (400 \<le> unat (observed_status e) \<and> unat (observed_status e) < 500) \<and>
          0 < unat (retries s)"
    from k have k': "e = Call \<or> retried s e" by (simp add: retried_eq)
    then have nc: "e \<noteq> Cancel" by auto
    from terminal_report [OF i en nc, of cfg] tk k'
    show "\<exists>s'. step cfg e s = Some s' \<and> dones (trace s') = 1 \<and>
          OnDone (Status INTERNAL ''Missing access token for service control call'') []
            \<in> set (trace s')"
      by (simp add: missing_token_status_def del: step.simps)
  qed
  show "\<forall>e. enabled s e \<and> non_success e \<and>
         (400 \<le> unat (observed_status e) \<and> unat (observed_status e) < 500 \<or>
          unat (retries s) = 0) \<longrightarrow>
       (\<exists>s'. step cfg e s = Some s' \<and> dones (trace s') = 1 \<and>
          OnDone (Status INTERNAL ''Failed to call service control'')
            (case e of
               Success resp \<Rightarrow> (case resp_body resp of None \<Rightarrow> [] | Some b \<Rightarrow> b)
             | _ \<Rightarrow> [])
            \<in> set (trace s'))"
  proof (intro allI impI, elim conjE)
    fix e
    assume en: "enabled s e" and ns: "non_success e"
      and k: "400 \<le> unat (observed_status e) \<and> unat (observed_status e) < 500 \<or>
          unat (retries s) = 0"
    from ns have nc: "e \<noteq> Cancel" "e \<noteq> Call" by auto
    from k have nr: "\<not> retried s e" by (auto simp: retried_eq)
    from terminal_report [OF i en nc(1), of cfg] nr nc(2)
    have "\<exists>s'. step cfg e s = Some s' \<and> dones (trace s') = 1 \<and>
        final_done e \<in> set (trace s')"
      by (simp del: step.simps)
    then show "\<exists>s'. step cfg e s = Some s' \<and> dones (trace s') = 1 \<and>
          OnDone (Status INTERNAL ''Failed to call service control'')
            (case e of
               Success resp \<Rightarrow> (case resp_body resp of None \<Rightarrow> [] | Some b \<Rightarrow> b)
             | _ \<Rightarrow> [])
            \<in> set (trace s')"
      by (simp only: final_done_non_success [OF ns])
  qed
  show "\<forall>resp. enabled s (Success resp) \<and> status_code resp = 200 \<longrightarrow>
       (\<exists>s'. step cfg (Success resp) s = Some s' \<and> dones (trace s') = 1 \<and>
          OnDone (Status OK []) (case resp_body resp of None \<Rightarrow> [] | Some b \<Rightarrow> b)
            \<in> set (trace s'))"
  proof (intro allI impI, elim conjE)
    fix resp
    assume en: "enabled s (Success resp)" and ok: "status_code resp = 200"
    from ok have c: "(Success resp = Call \<or> retried s (Success resp)) = False" by simp
    have nc: "Success resp \<noteq> Cancel" by simp
    have np: "\<not> ((Success resp = Call \<or> retried s (Success resp)) \<and>
        token_fn cfg (fetches (trace s)) \<noteq> [])"
      by (simp only: c) simp
    have "\<exists>s'. step cfg (Success resp) s = Some s' \<and> dones (trace s') = 1 \<and>
        final_done (Success resp) \<in> set (trace s')"
      using terminal_report [OF i en nc np] by (simp only: c if_False)
    then show "\<exists>s'. step cfg (Success resp) s = Some s' \<and> dones (trace s') = 1 \<and>
          OnDone (Status OK []) (case resp_body resp of None \<Rightarrow> [] | Some b \<Rightarrow> b)
            \<in> set (trace s')"
      using ok by (simp add: Status_OK_def body_of_def del: step.simps)
  qed
qed

theorem failures_all_internal_witness:
  "(\<exists>s. run example_config [Call] (create 5) = Some s \<and>
      enabled s (Success \<lparr>status_code = 404, resp_body = Some ''x''\<rparr>) \<and>
      non_success (Success \<lparr>status_code = 404, resp_body = Some ''x''\<rparr>) \<and>
      400 \<le> unat (observed_status (Success \<lparr>status_code = 404, resp_body = Some ''x''\<rparr>)) \<and>
      unat (observed_status (Success \<lparr>status_code = 404, resp_body = Some ''x''\<rparr>)) < 500 \<and>
      (\<exists>s'. step example_config (Success \<lparr>status_code = 404, resp_body = Some ''x''\<rparr>) s
             = Some s' \<and>
         dones (trace s') = 1 \<and>
         OnDone (Status INTERNAL ''Failed to call service control'') ''x'' \<in> set (trace s'))) \<and>
   (\<exists>s. run example_config [Call] (create 0) = Some s \<and>
      enabled s (Failure Reset) \<and> non_success (Failure Reset) \<and> unat (retries s) = 0 \<and>
      (\<exists>s'. step example_config (Failure Reset) s = Some s' \<and> dones (trace s') = 1 \<and>
         OnDone (Status INTERNAL ''Failed to call service control'') [] \<in> set (trace s'))) \<and>
   (run example_no_token [] (create 5) = Some (create 5) \<and> enabled (create 5) Call \<and>
      token_fn example_no_token (fetches (trace (create 5))) = [] \<and>
      (\<exists>s'. step example_no_token Call (create 5) = Some s' \<and> dones (trace s') = 1 \<and>
         OnDone (Status INTERNAL ''Missing access token for service control call'') []
           \<in> set (trace s'))) \<and>
   (\<exists>s. run example_config [Call, Success \<lparr>status_code = 404, resp_body = Some ''x''\<rparr>]
          (create 5) = Some s \<and>
        OnDone (Status INTERNAL ''Failed to call service control'') ''x'' \<in> set (trace s) \<and>
        error_code (Status INTERNAL ''Failed to call service control'') = INTERNAL) \<and>
   error_code (Status INTERNAL ''Missing access token for service control call'') =
     error_code (Status INTERNAL ''Failed to call service control'')"
proof -
  let ?e = "Success \<lparr>status_code = 404, resp_body = Some ''x''\<rparr>"
  let ?s = "call example_config (create 5)"
  have hs: "run example_config [Call] (create 5) = Some ?s" by (simp add: create_def)
  have es: "enabled ?s ?e"
    by (simp add: call_def makeOneCall_token example_config_def create_def span_setup_def)
  have ns: "non_success ?e" by simp
  have bs: "400 \<le> unat (observed_status ?e)" "unat (observed_status ?e) < 500" by simp_all
  note a3 = failures_all_internal [OF hs, THEN conjunct2, THEN conjunct2, THEN conjunct1]
  have ks: "enabled ?s ?e \<and> non_success ?e \<and>
         (400 \<le> unat (observed_status ?e) \<and> unat (observed_status ?e) < 500 \<or>
          unat (retries ?s) = 0)"
    using es by (intro conjI disjI1 ns bs)
  have 1: "\<exists>s'. step example_config ?e ?s = Some s' \<and> dones (trace s') = 1 \<and>
         OnDone (Status INTERNAL ''Failed to call service control'') ''x'' \<in> set (trace s')"
    using a3 [rule_format, OF ks] by (simp del: step.simps)
  have A: "\<exists>s. run example_config [Call] (create 5) = Some s \<and>
      enabled s ?e \<and> non_success ?e \<and>
      400 \<le> unat (observed_status ?e) \<and> unat (observed_status ?e) < 500 \<and>
      (\<exists>s'. step example_config ?e s = Some s' \<and> dones (trace s') = 1 \<and>
         OnDone (Status INTERNAL ''Failed to call service control'') ''x'' \<in> set (trace s'))"
    by (rule exI [of _ ?s]) (intro conjI hs es ns bs 1)
  let ?u = "call example_config (create 0)"
  have hu: "run example_config [Call] (create 0) = Some ?u" by (simp add: create_def)
  have eu: "enabled ?u (Failure Reset)"
    by (simp add: call_def makeOneCall_token example_config_def create_def span_setup_def)
  have nu: "non_success (Failure Reset)" by simp
  have ru: "unat (retries ?u) = 0"
    by (simp add: call_def makeOneCall_token example_config_def create_def)
  note b3 = failures_all_internal [OF hu, THEN conjunct2, THEN conjunct2, THEN conjunct1]
  have ku: "enabled ?u (Failure Reset) \<and> non_success (Failure Reset) \<and>
         (400 \<le> unat (observed_status (Failure Reset)) \<and>
          unat (observed_status (Failure Reset)) < 500 \<or>
          unat (retries ?u) = 0)"
    using eu by (intro conjI disjI2 nu ru)
  have 2: "\<exists>s'. step example_config (Failure Reset) ?u = Some s' \<and> dones (trace s') = 1 \<and>
         OnDone (Status INTERNAL ''Failed to call service control'') [] \<in> set (trace s')"
    using b3 [rule_format, OF ku] by (simp del: step.simps)
  have B: "\<exists>s. run example_config [Call] (create 0) = Some s \<and>
      enabled s (Failure Reset) \<and> non_success (Failure Reset) \<and> unat (retries s) = 0 \<and>
      (\<exists>s'. step example_config (Failure Reset) s = Some s' \<and> dones (trace s') = 1 \<and>
         OnDone (Status INTERNAL ''Failed to call service control'') [] \<in> set (trace s'))"
    by (rule exI [of _ ?u]) (intro conjI hu eu nu ru 2)
  have h0: "run example_no_token [] (create 5) = Some (create 5)" by simp
  have e0: "enabled (create 5) Call" by (simp add: create_def)
  have t0: "token_fn example_no_token (fetches (trace (create 5))) = []"
    by (simp add: example_no_token_def)
  note c2 = failures_all_internal [OF h0, THEN conjunct2, THEN conjunct1]
  have k0: "enabled (create 5) Call \<and>
         (Call = Call \<or>
          non_success Call \<and>
          \<not> (400 \<le> unat (observed_status Call) \<and> unat (observed_status Call) < 500) \<and>
          0 < unat (retries (create 5))) \<and>
         token_fn example_no_token (fetches (trace (create 5))) = []"
    using e0 t0 by (intro conjI disjI1 refl)
  have 3: "\<exists>s'. step example_no_token Call (create 5) = Some s' \<and> dones (trace s') = 1 \<and>
         OnDone (Status INTERNAL ''Missing access token for service control call'') []
           \<in> set (trace s')"
    using c2 [rule_format, OF k0] .
  let ?es = "[Call, Success \<lparr>status_code = 404, resp_body = Some ''x''\<rparr>]"
  have "\<exists>s. run example_config ?es (create 5) = Some s \<and>
      OnDone (Status INTERNAL ''Failed to call service control'') ''x'' \<in> set (trace s)"
    by (simp add: call_def makeOneCall_token example_config_def create_def span_setup_def
        onSuccess_def attemptRetry_def emit_def deferredDelete_def reset_def Let_def)
  then obtain w where w: "run example_config ?es (create 5) = Some w"
    "OnDone (Status INTERNAL ''Failed to call service control'') ''x'' \<in> set (trace w)"
    by blast
  note d1 = failures_all_internal [OF w(1), THEN conjunct1]
  from d1 [rule_format, OF w(2)]
  have 4: "error_code (Status INTERNAL ''Failed to call service control'') = INTERNAL"
    by simp
  have D: "\<exists>s. run example_config ?es (create 5) = Some s \<and>
        OnDone (Status INTERNAL ''Failed to call service control'') ''x'' \<in> set (trace s) \<and>
        error_code (Status INTERNAL ''Failed to call service control'') = INTERNAL"
    by (rule exI [of _ w]) (intro conjI w 4)
  have E: "error_code (Status INTERNAL ''Missing access token for service control call'') =
     error_code (Status INTERNAL ''Failed to call service control'')" by simp
  from A B h0 e0 t0 3 D E show ?thesis by (intro conjI)
qed

end
